theory Spec2Isabelle
  imports Complex_Main
begin

section \<open>JavaScript strings and numbers\<close>

text \<open>
  The scheduler is TypeScript. A string is a list of characters; the characters the
  interpreter looks at (digits, \<open>*\<close>, \<open>/\<close>, \<open>-\<close>, \<open>,\<close>, white space) are ASCII. The white space of
  \<open>trim\<close>, of the regular expression \<open>\s\<close> and of \<open>Number\<close> is modelled on the ASCII range
  (tab, line feed, vertical tab, form feed, carriage return, space).

  A JavaScript number is NaN, an infinity or a finite value. Finite values are kept exact:
  the rounding of a literal to the nearest double is not modelled, so the model agrees with
  the engine on every literal a double holds exactly (in particular on all integers below
  \<open>2^53\<close>).
\<close>

datatype jsnum = NaN | NegInf | Fin real | PosInf

definition isWhiteSpace :: "char \<Rightarrow> bool" where
  "isWhiteSpace c = (c \<in> set [CHR 0x09, CHR 0x0A, CHR 0x0B, CHR 0x0C, CHR 0x0D, CHR '' ''])"

definition trim :: "string \<Rightarrow> string" where
  "trim s = rev (dropWhile isWhiteSpace (rev (dropWhile isWhiteSpace s)))"

text \<open>\<open>s.split(c)\<close> for a one-character separator: every occurrence separates, and the
  empty string splits into one empty piece.\<close>

fun String_split :: "char \<Rightarrow> string \<Rightarrow> string list" where
  "String_split c [] = [[]]"
| "String_split c (x # xs) =
     (if x = c then [] # String_split c xs
      else (case String_split c xs of
              p # ps \<Rightarrow> (x # p) # ps
            | [] \<Rightarrow> [[x]]))"

text \<open>\<open>s.split(/\s+/)\<close>: a maximal run of white space is one separator.\<close>

function split_ws :: "string \<Rightarrow> string list" where
  "split_ws [] = [[]]"
| "split_ws (x # xs) =
     (if isWhiteSpace x then [] # split_ws (dropWhile isWhiteSpace xs)
      else (case split_ws xs of
              p # ps \<Rightarrow> (x # p) # ps
            | [] \<Rightarrow> [[x]]))"
  by pat_completeness auto
termination
  by (relation "measure length") (auto simp: length_dropWhile_le less_Suc_eq_le)

text \<open>\<open>s.includes(c)\<close>.\<close>

definition String_includes :: "string \<Rightarrow> char \<Rightarrow> bool" where
  "String_includes s c = (c \<in> set s)"

subsection \<open>\<open>Number(string)\<close>\<close>

definition isDigit :: "char \<Rightarrow> bool" where
  "isDigit c = (c \<in> set ''0123456789'')"

definition isHexDigit :: "char \<Rightarrow> bool" where
  "isHexDigit c = (c \<in> set ''0123456789abcdefABCDEF'')"

definition hexVal :: "char \<Rightarrow> nat" where
  "hexVal c =
     (if c \<in> set ''ABCDEF'' then 10 + length (takeWhile (\<lambda>d. d \<noteq> c) ''ABCDEF'')
      else length (takeWhile (\<lambda>d. d \<noteq> c) ''0123456789abcdef''))"

definition digitsVal :: "nat \<Rightarrow> string \<Rightarrow> nat" where
  "digitsVal base ds = foldl (\<lambda>a c. base * a + hexVal c) 0 ds"

text \<open>\<open>0x\<close>, \<open>0o\<close> and \<open>0b\<close> literals: a prefix and at least one digit of the radix, no sign.\<close>

definition nonDecimalIntegerLiteral :: "string \<Rightarrow> nat option" where
  "nonDecimalIntegerLiteral s =
     (case s of
        z # p # ds \<Rightarrow>
          if z = CHR ''0'' \<and> ds \<noteq> [] then
            (if p \<in> set ''xX'' \<and> list_all isHexDigit ds then Some (digitsVal 16 ds)
             else if p \<in> set ''oO'' \<and> list_all (\<lambda>c. c \<in> set ''01234567'') ds
               then Some (digitsVal 8 ds)
             else if p \<in> set ''bB'' \<and> list_all (\<lambda>c. c \<in> set ''01'') ds
               then Some (digitsVal 2 ds)
             else None)
          else None
      | _ \<Rightarrow> None)"

text \<open>The exponent part: nothing, or \<open>e\<close>/\<open>E\<close>, an optional sign and at least one digit.\<close>

definition signedInteger :: "string \<Rightarrow> int option" where
  "signedInteger t =
     (let ds = (case t of c # r \<Rightarrow> if c \<in> set ''+-'' then r else t | [] \<Rightarrow> t) in
      if ds \<noteq> [] \<and> list_all isDigit ds then
        Some (case t of c # r \<Rightarrow> if c = CHR ''-'' then - int (digitsVal 10 ds)
                                 else int (digitsVal 10 ds)
              | [] \<Rightarrow> 0)
      else None)"

definition exponentPart :: "string \<Rightarrow> int option" where
  "exponentPart r =
     (case r of
        [] \<Rightarrow> Some 0
      | c # t \<Rightarrow> if c \<in> set ''eE'' then signedInteger t else None)"

definition pow10 :: "int \<Rightarrow> real" where
  "pow10 e = (if 0 \<le> e then 10 ^ nat e else 1 / 10 ^ nat (- e))"

text \<open>An unsigned decimal literal: \<open>Infinity\<close>, or digits with an optional fraction and an
  optional exponent, with a digit on at least one side of the point.\<close>

definition StrUnsignedDecimalLiteral :: "string \<Rightarrow> jsnum" where
  "StrUnsignedDecimalLiteral s =
     (if s = ''Infinity'' then PosInf
      else
        let ip = takeWhile isDigit s;
            r1 = dropWhile isDigit s;
            dot = (r1 \<noteq> [] \<and> hd r1 = CHR ''.'');
            fp = (if dot then takeWhile isDigit (tl r1) else []);
            r2 = (if dot then dropWhile isDigit (tl r1) else r1)
        in if ip = [] \<and> fp = [] then NaN
           else (case exponentPart r2 of
                   None \<Rightarrow> NaN
                 | Some e \<Rightarrow>
                     Fin ((real (digitsVal 10 ip)
                           + real (digitsVal 10 fp) / 10 ^ length fp) * pow10 e)))"

definition js_neg :: "jsnum \<Rightarrow> jsnum" where
  "js_neg a = (case a of NaN \<Rightarrow> NaN | NegInf \<Rightarrow> PosInf | PosInf \<Rightarrow> NegInf | Fin x \<Rightarrow> Fin (- x))"

definition Number_js :: "string \<Rightarrow> jsnum" where
  "Number_js str =
     (let s = trim str in
      if s = [] then Fin 0
      else (case nonDecimalIntegerLiteral s of
              Some n \<Rightarrow> Fin (real n)
            | None \<Rightarrow>
                if hd s = CHR ''+'' then StrUnsignedDecimalLiteral (tl s)
                else if hd s = CHR ''-'' then js_neg (StrUnsignedDecimalLiteral (tl s))
                else StrUnsignedDecimalLiteral s))"

subsection \<open>Comparison and remainder\<close>

text \<open>\<open>a === b\<close>, \<open>a <= b\<close>, \<open>a >= b\<close>, \<open>a < b\<close>, \<open>a > b\<close> on numbers: every comparison with
  NaN is false.\<close>

fun js_eq :: "jsnum \<Rightarrow> jsnum \<Rightarrow> bool" where
  "js_eq (Fin x) (Fin y) = (x = y)"
| "js_eq PosInf PosInf = True"
| "js_eq NegInf NegInf = True"
| "js_eq _ _ = False"

fun js_lt :: "jsnum \<Rightarrow> jsnum \<Rightarrow> bool" where
  "js_lt NaN _ = False"
| "js_lt _ NaN = False"
| "js_lt (Fin x) (Fin y) = (x < y)"
| "js_lt _ NegInf = False"
| "js_lt PosInf _ = False"
| "js_lt NegInf _ = True"
| "js_lt _ PosInf = True"

definition js_le :: "jsnum \<Rightarrow> jsnum \<Rightarrow> bool" where
  "js_le a b = (js_lt a b \<or> js_eq a b)"

definition js_ge :: "jsnum \<Rightarrow> jsnum \<Rightarrow> bool" where
  "js_ge a b = js_le b a"

definition js_gt :: "jsnum \<Rightarrow> jsnum \<Rightarrow> bool" where
  "js_gt a b = js_lt b a"

text \<open>\<open>a % b\<close>: the remainder has the sign of the dividend; it is NaN when the dividend is
  not finite or the divisor is zero or NaN, and the dividend when the divisor is infinite.\<close>

definition trunc :: "real \<Rightarrow> int" where
  "trunc x = (if 0 \<le> x then \<lfloor>x\<rfloor> else \<lceil>x\<rceil>)"

fun js_rem :: "jsnum \<Rightarrow> jsnum \<Rightarrow> jsnum" where
  "js_rem (Fin a) (Fin b) = (if b = 0 then NaN else Fin (a - b * real_of_int (trunc (a / b))))"
| "js_rem (Fin a) PosInf = Fin a"
| "js_rem (Fin a) NegInf = Fin a"
| "js_rem _ _ = NaN"

section \<open>Cron Subset Interpreter\<close>

text \<open>\<open>[a, b] = xs\<close>: a missing element is \<open>undefined\<close>; \<open>Number(undefined)\<close> is NaN and
  \<open>undefined === '*'\<close> is false. After \<open>part.split(c)\<close> on a part that includes \<open>c\<close> both
  elements exist.\<close>

definition nth_Number :: "string list \<Rightarrow> nat \<Rightarrow> jsnum" where
  "nth_Number xs i = (if i < length xs then Number_js (xs ! i) else NaN)"

text \<open>The loop body of \<open>cronFieldMatches\<close> on one comma-separated part: whether this part
  makes the loop return true.\<close>

definition fieldPartMatches :: "string \<Rightarrow> int \<Rightarrow> bool" where
  "fieldPartMatches part v =
     (if String_includes part (CHR ''/'') then
        (let ps = String_split (CHR ''/'') part;
             step = nth_Number ps 1
         in hd ps = ''*'' \<and> js_eq (js_rem (Fin (real_of_int v)) step) (Fin 0))
      else if String_includes part (CHR ''-'') then
        (let ps = String_split (CHR ''-'') part;
             start = nth_Number ps 0;
             end' = nth_Number ps 1
         in js_ge (Fin (real_of_int v)) start \<and> js_le (Fin (real_of_int v)) end')
      else js_eq (Number_js part) (Fin (real_of_int v)))"

fun cronFieldLoop :: "string list \<Rightarrow> int \<Rightarrow> bool" where
  "cronFieldLoop [] v = False"
| "cronFieldLoop (part # parts) v =
     (if fieldPartMatches part v then True else cronFieldLoop parts v)"

definition cronFieldMatches :: "string \<Rightarrow> int \<Rightarrow> bool" where
  "cronFieldMatches field v =
     (if field = ''*'' then True
      else cronFieldLoop (String_split (CHR '','') field) v)"

definition dowPartMatches :: "string \<Rightarrow> int \<Rightarrow> bool" where
  "dowPartMatches part todayDow =
     (if String_includes part (CHR ''-'') then
        (let ps = String_split (CHR ''-'') part;
             start = nth_Number ps 0;
             end' = nth_Number ps 1
         in js_ge (Fin (real_of_int todayDow)) start \<and> js_le (Fin (real_of_int todayDow)) end')
      else
        (let val = Number_js part
         in js_eq val (Fin (real_of_int todayDow))
            \<or> (js_eq val (Fin 7) \<and> todayDow = 0)))"

fun cronDowLoop :: "string list \<Rightarrow> int \<Rightarrow> bool" where
  "cronDowLoop [] todayDow = False"
| "cronDowLoop (part # parts) todayDow =
     (if dowPartMatches part todayDow then True else cronDowLoop parts todayDow)"

definition cronDowMatches :: "string \<Rightarrow> int \<Rightarrow> bool" where
  "cronDowMatches field todayDow =
     (if field = ''*'' then True
      else cronDowLoop (String_split (CHR '','') field) todayDow)"

definition cronMatchesToday :: "string \<Rightarrow> int \<Rightarrow> int \<Rightarrow> int \<Rightarrow> bool" where
  "cronMatchesToday cron todayDow todayDate todayMonth =
     (let parts = split_ws (trim cron) in
      if length parts < 5 then False
      else
        let dayOfMonth = parts ! 2; month = parts ! 3; dayOfWeek = parts ! 4 in
        if \<not> cronFieldMatches month todayMonth then False
        else if \<not> cronFieldMatches dayOfMonth todayDate then False
        else if \<not> cronDowMatches dayOfWeek todayDow then False
        else True)"


section \<open>Numbers to strings, dates, sorting\<close>

text \<open>\<open>String(n)\<close>: an integer prints in decimal. A fraction prints its digits after the
  point, up to twenty of them; the exponent notation of very large and very small doubles is
  not modelled.\<close>

definition digitChar :: "nat \<Rightarrow> char" where
  "digitChar d = ''0123456789'' ! d"

fun dec :: "nat \<Rightarrow> string" where
  "dec n = (if n < 10 then [digitChar n] else dec (n div 10) @ [digitChar (n mod 10)])"

fun fracDigits :: "nat \<Rightarrow> real \<Rightarrow> string" where
  "fracDigits 0 x = []"
| "fracDigits (Suc k) x =
     (if x = 0 then []
      else digitChar (nat \<lfloor>10 * x\<rfloor>) # fracDigits k (10 * x - real_of_int \<lfloor>10 * x\<rfloor>))"

definition String_js :: "jsnum \<Rightarrow> string" where
  "String_js a =
     (case a of
        NaN \<Rightarrow> ''NaN''
      | PosInf \<Rightarrow> ''Infinity''
      | NegInf \<Rightarrow> ''-Infinity''
      | Fin x \<Rightarrow>
          (if x < 0 then ''-'' else [])
          @ dec (nat \<lfloor>\<bar>x\<bar>\<rfloor>)
          @ (if \<bar>x\<bar> = real_of_int \<lfloor>\<bar>x\<bar>\<rfloor> then []
             else ''.'' @ fracDigits 20 (\<bar>x\<bar> - real_of_int \<lfloor>\<bar>x\<bar>\<rfloor>)))"

text \<open>\<open>const pad = (n) => String(n).padStart(2, '0')\<close>.\<close>

definition pad :: "jsnum \<Rightarrow> string" where
  "pad n = (let t = String_js n in replicate (2 - length t) (CHR ''0'') @ t)"

text \<open>\<open>a - b\<close> with a finite right operand.\<close>

definition js_sub :: "jsnum \<Rightarrow> real \<Rightarrow> jsnum" where
  "js_sub a b = (case a of Fin x \<Rightarrow> Fin (x - b) | _ \<Rightarrow> a)"

text \<open>A \<open>Date\<close> is its time value, the milliseconds since the epoch (invalid dates are not
  modelled). The calendar fields of the UTC getters come from the day number by the
  proleptic Gregorian calendar.\<close>

definition civil :: "int \<Rightarrow> int \<times> int \<times> int" where
  "civil z =
     (let z1 = z + 719468;
          era = z1 div 146097;
          doe = z1 - era * 146097;
          yoe = (doe - doe div 1460 + doe div 36524 - doe div 146096) div 365;
          doy = doe - (365 * yoe + yoe div 4 - yoe div 100);
          mp = (5 * doy + 2) div 153;
          d = doy - (153 * mp + 2) div 5 + 1;
          m = (if mp < 10 then mp + 3 else mp - 9);
          y = yoe + era * 400 + (if m \<le> 2 then 1 else 0)
      in (y, m, d))"

definition getUTCFullYear :: "int \<Rightarrow> int" where
  "getUTCFullYear t = fst (civil (t div 86400000))"

definition getUTCMonth :: "int \<Rightarrow> int" where
  "getUTCMonth t = fst (snd (civil (t div 86400000))) - 1"

definition getUTCDate :: "int \<Rightarrow> int" where
  "getUTCDate t = snd (snd (civil (t div 86400000)))"

definition getUTCDay :: "int \<Rightarrow> int" where
  "getUTCDay t = (t div 86400000 + 4) mod 7"

definition getUTCHours :: "int \<Rightarrow> int" where
  "getUTCHours t = (t mod 86400000) div 3600000"

definition getUTCMinutes :: "int \<Rightarrow> int" where
  "getUTCMinutes t = (t mod 3600000) div 60000"

text \<open>\<open>Date.UTC(year, monthIndex, day)\<close>: midnight of that day; a year from 0 to 99 counts
  from 1900.\<close>

definition Date_UTC :: "int \<Rightarrow> int \<Rightarrow> int \<Rightarrow> int" where
  "Date_UTC year monthIndex day =
     (let y0 = (if 0 \<le> year \<and> year \<le> 99 then 1900 + year else year);
          m = monthIndex + 1;
          y = (if m \<le> 2 then y0 - 1 else y0);
          era = y div 400;
          yoe = y - era * 400;
          doy = (153 * (if m > 2 then m - 3 else m + 9) + 2) div 5 + day - 1;
          doe = yoe * 365 + yoe div 4 - yoe div 100 + doy
      in (era * 146097 + doe - 719468) * 86400000)"

text \<open>\<open>a.localeCompare(b)\<close> with the default collation of the host (ICU, root order).
  Characters are ranked by class first: white space, then punctuation and symbols in the
  order of the collation, then digits, then letters; a letter has the same primary weight in
  both cases. Two strings are compared by the primary weights of their characters, position
  by position, a proper prefix first; when that leaves them equal, by case, lower case first.
  Bytes outside ASCII come after the letters in byte order, which is the order of the
  collation for the syllables of the time label; control characters are not modelled.\<close>

definition punctuationOrder :: string where
  "punctuationOrder =
     [CHR ''_'', CHR ''-'', CHR '','', CHR '';'', CHR '':'', CHR ''!'', CHR ''?'', CHR ''.'',
      CHR 0x27, CHR 0x22, CHR ''('', CHR '')'', CHR ''['', CHR '']'', CHR ''{'', CHR ''}'',
      CHR ''@'', CHR ''*'', CHR ''/'', CHR 0x5C, CHR ''&'', CHR ''#'', CHR ''%'', CHR 0x60,
      CHR ''^'', CHR ''+'', CHR ''<'', CHR ''='', CHR ''>'', CHR ''|'', CHR ''~'', CHR ''$'']"

definition indexOf :: "char \<Rightarrow> string \<Rightarrow> nat" where
  "indexOf c xs = length (takeWhile (\<lambda>d. d \<noteq> c) xs)"

definition primaryWeight :: "char \<Rightarrow> nat" where
  "primaryWeight c =
     (if isWhiteSpace c then of_char c
      else if c \<in> set punctuationOrder then 100 + indexOf c punctuationOrder
      else if isDigit c then 200 + indexOf c ''0123456789''
      else if c \<in> set ''abcdefghijklmnopqrstuvwxyz''
        then 300 + indexOf c ''abcdefghijklmnopqrstuvwxyz''
      else if c \<in> set ''ABCDEFGHIJKLMNOPQRSTUVWXYZ''
        then 300 + indexOf c ''ABCDEFGHIJKLMNOPQRSTUVWXYZ''
      else 1000 + of_char c)"

definition caseWeight :: "char \<Rightarrow> nat" where
  "caseWeight c = (if c \<in> set ''ABCDEFGHIJKLMNOPQRSTUVWXYZ'' then 1 else 0)"

fun compareBy :: "(char \<Rightarrow> nat) \<Rightarrow> string \<Rightarrow> string \<Rightarrow> int" where
  "compareBy w [] [] = 0"
| "compareBy w [] (y # ys) = - 1"
| "compareBy w (x # xs) [] = 1"
| "compareBy w (x # xs) (y # ys) =
     (if w x < w y then - 1
      else if w y < w x then 1
      else compareBy w xs ys)"

definition localeCompare :: "string \<Rightarrow> string \<Rightarrow> int" where
  "localeCompare a b =
     (let p = compareBy primaryWeight a b
      in if p \<noteq> 0 then p else compareBy caseWeight a b)"

text \<open>\<open>xs.sort(cmp)\<close>: a stable sort.\<close>

fun insertSorted :: "('a \<Rightarrow> 'a \<Rightarrow> int) \<Rightarrow> 'a \<Rightarrow> 'a list \<Rightarrow> 'a list" where
  "insertSorted cmp x [] = [x]"
| "insertSorted cmp x (y # ys) =
     (if cmp x y < 0 then x # y # ys else y # insertSorted cmp x ys)"

definition Array_sort :: "('a \<Rightarrow> 'a \<Rightarrow> int) \<Rightarrow> 'a list \<Rightarrow> 'a list" where
  "Array_sort cmp xs = foldl (\<lambda>acc x. insertSorted cmp x acc) [] xs"

text \<open>A string or \<open>null\<close>/\<open>undefined\<close> in a condition: true unless absent or empty.\<close>

definition truthy :: "string option \<Rightarrow> bool" where
  "truthy s = (s \<noteq> None \<and> s \<noteq> Some [])"

section \<open>Data model\<close>

datatype ScheduleType = fixed | manual | event

record ScheduledNotificationEntity =
  id_s :: string
  type :: ScheduleType
  name :: string
  message :: string
  chatId :: string
  enabled :: bool
  createdAt :: int
  cron :: "string option"
  scheduledAt :: "int option"
  eventTime :: "string option"
  description :: "string option"

text \<open>The request bodies. \<open>scheduledAt\<close> arrives as an ISO 8601 string and is only ever read
  through \<open>new Date(...)\<close>; the records carry the instant it denotes (\<open>None\<close> when the field
  is absent).\<close>

record CreateScheduleDto =
  dto_type :: ScheduleType
  dto_name :: string
  dto_message :: string
  dto_chatId :: "string option"
  dto_cron :: "string option"
  dto_scheduledAt :: "int option"
  dto_eventTime :: "string option"
  dto_description :: "string option"

record UpdateScheduleDto =
  upd_name :: "string option"
  upd_message :: "string option"
  upd_chatId :: "string option"
  upd_cron :: "string option"
  upd_scheduledAt :: "int option"
  upd_enabled :: "bool option"
  upd_eventTime :: "string option"
  upd_description :: "string option"

datatype error = BadRequestException | NotFoundException | TypeError

text \<open>One entry of the daily digest's alarm list.\<close>

record alarmItem =
  itemName :: string
  itemTime :: string
  itemEventTime :: "string option"

text \<open>What \<open>botService.sendMessage\<close> is asked to deliver: the message of a schedule, or a
  digest. The digest text is a rendering of the date, the event names and the alarm items in
  the order given here.\<close>

datatype payload = Text string | Digest int "string list" "alarmItem list"

text \<open>The collaborators: the configured default chat, whether \<open>new CronJob(cron, ...)\<close>
  constructs or throws, and whether a send resolves or rejects.\<close>

record env =
  defaultChatId :: string
  CronJob_ok :: "string option \<Rightarrow> bool"
  sendMessage_ok :: "string \<Rightarrow> payload \<Rightarrow> bool"

text \<open>The table of the storage service, the two registries of the scheduler, and the log of
  send attempts (destination, payload, whether it resolved).\<close>

record state =
  store :: "ScheduledNotificationEntity list"
  cronJobs :: "string \<rightharpoonup> ScheduledNotificationEntity"
  timers :: "string \<rightharpoonup> ScheduledNotificationEntity"
  outbox :: "(string \<times> payload \<times> bool) list"

section \<open>Schedule Store\<close>

definition storage_findAll :: "state \<Rightarrow> ScheduledNotificationEntity list" where
  "storage_findAll st = sort_key createdAt (store st)"

definition storage_findById :: "string \<Rightarrow> state \<Rightarrow> ScheduledNotificationEntity option" where
  "storage_findById i st = find (\<lambda>r. id_s r = i) (store st)"

text \<open>The database assigns the primary key \<open>newId\<close> and the creation time.\<close>

definition storage_create ::
  "string \<Rightarrow> int \<Rightarrow> ScheduledNotificationEntity \<Rightarrow> state \<Rightarrow> ScheduledNotificationEntity \<times> state" where
  "storage_create newId now data st =
     (let saved = data\<lparr>id_s := newId, createdAt := now\<rparr>
      in (saved, st\<lparr>store := store st @ [saved]\<rparr>))"

definition storage_update ::
  "string \<Rightarrow> (ScheduledNotificationEntity \<Rightarrow> ScheduledNotificationEntity) \<Rightarrow> state
     \<Rightarrow> ScheduledNotificationEntity option \<times> state" where
  "storage_update i partial st =
     (let st' = st\<lparr>store := map (\<lambda>r. if id_s r = i then partial r else r) (store st)\<rparr>
      in (storage_findById i st', st'))"

definition storage_delete :: "string \<Rightarrow> state \<Rightarrow> bool \<times> state" where
  "storage_delete i st =
     (list_ex (\<lambda>r. id_s r = i) (store st), st\<lparr>store := filter (\<lambda>r. id_s r \<noteq> i) (store st)\<rparr>)"


section \<open>Runtime Scheduler\<close>

text \<open>The registries map a schedule id to the handle of its running job or pending timer.
  A handle is identified with the schedule object its callback closes over. \<open>now\<close> is the
  reading of \<open>Date.now()\<close> during the operation.\<close>

definition startCronJob :: "env \<Rightarrow> ScheduledNotificationEntity \<Rightarrow> state \<Rightarrow> state" where
  "startCronJob e schedule st =
     (if CronJob_ok e (cron schedule)
      then st\<lparr>cronJobs := (cronJobs st)(id_s schedule \<mapsto> schedule)\<rparr>
      else st)"

text \<open>\<open>schedule.scheduledAt!.getTime()\<close> on a record without \<open>scheduledAt\<close> throws.\<close>

definition startTimer :: "int \<Rightarrow> ScheduledNotificationEntity \<Rightarrow> state \<Rightarrow> error + state" where
  "startTimer now schedule st =
     (case scheduledAt schedule of
        None \<Rightarrow> Inl TypeError
      | Some t \<Rightarrow>
          (let delay = t - now in
           if delay \<le> 0 then Inr st
           else Inr (st\<lparr>timers := (timers st)(id_s schedule \<mapsto> schedule)\<rparr>)))"

definition stopJob :: "string \<Rightarrow> state \<Rightarrow> state" where
  "stopJob i st = st\<lparr>cronJobs := (cronJobs st)(i := None), timers := (timers st)(i := None)\<rparr>"

definition clearAllJobs :: "state \<Rightarrow> state" where
  "clearAllJobs st = st\<lparr>cronJobs := Map.empty, timers := Map.empty\<rparr>"

definition orDefault :: "env \<Rightarrow> string \<Rightarrow> string" where
  "orDefault e c = (if c = [] then defaultChatId e else c)"

definition sendScheduledMessage :: "env \<Rightarrow> ScheduledNotificationEntity \<Rightarrow> state \<Rightarrow> state" where
  "sendScheduledMessage e schedule st =
     (let c = orDefault e (chatId schedule);
          p = Text (message schedule)
      in st\<lparr>outbox := outbox st @ [(c, p, sendMessage_ok e c p)]\<rparr>)"

text \<open>The callbacks: the tick of a recurring job and the fire of a one-shot timer, each on
  the schedule object it was started with.\<close>

definition cronCallback :: "env \<Rightarrow> ScheduledNotificationEntity \<Rightarrow> state \<Rightarrow> state" where
  "cronCallback e schedule st = sendScheduledMessage e schedule st"

definition timerCallback :: "env \<Rightarrow> ScheduledNotificationEntity \<Rightarrow> state \<Rightarrow> state" where
  "timerCallback e schedule st =
     (let st1 = sendScheduledMessage e schedule st;
          st2 = snd (storage_update (id_s schedule) (\<lambda>r. r\<lparr>enabled := False\<rparr>) st1)
      in st2\<lparr>timers := (timers st2)(id_s schedule := None)\<rparr>)"

text \<open>The runtime running the callback registered under an id, if there is one.\<close>

definition cronTick :: "env \<Rightarrow> string \<Rightarrow> state \<Rightarrow> state" where
  "cronTick e i st = (case cronJobs st i of None \<Rightarrow> st | Some schedule \<Rightarrow> cronCallback e schedule st)"

definition timerFire :: "env \<Rightarrow> string \<Rightarrow> state \<Rightarrow> state" where
  "timerFire e i st = (case timers st i of None \<Rightarrow> st | Some schedule \<Rightarrow> timerCallback e schedule st)"

subsection \<open>Restart recovery\<close>

fun restoreLoop ::
  "env \<Rightarrow> int \<Rightarrow> ScheduledNotificationEntity list \<Rightarrow> state \<Rightarrow> (error + unit) \<times> state" where
  "restoreLoop e now [] st = (Inr (), st)"
| "restoreLoop e now (schedule # rest) st =
     (if \<not> enabled schedule then restoreLoop e now rest st
      else if type schedule = fixed then restoreLoop e now rest (startCronJob e schedule st)
      else if type schedule = manual then
        (case scheduledAt schedule of
           None \<Rightarrow> (Inl TypeError, st)
         | Some scheduledTime \<Rightarrow>
             if scheduledTime > now then
               (case startTimer now schedule st of
                  Inl err \<Rightarrow> (Inl err, st)
                | Inr st' \<Rightarrow> restoreLoop e now rest st')
             else restoreLoop e now rest
                    (snd (storage_update (id_s schedule) (\<lambda>r. r\<lparr>enabled := False\<rparr>) st)))
      else restoreLoop e now rest st)"

definition restoreSchedules :: "env \<Rightarrow> int \<Rightarrow> state \<Rightarrow> (error + unit) \<times> state" where
  "restoreSchedules e now st = restoreLoop e now (storage_findAll st) st"

subsection \<open>CRUD\<close>

definition create ::
  "env \<Rightarrow> int \<Rightarrow> string \<Rightarrow> CreateScheduleDto \<Rightarrow> state
     \<Rightarrow> (error + ScheduledNotificationEntity) \<times> state" where
  "create e now newId dto st =
     (if dto_type dto = manual \<and> (case dto_scheduledAt dto of Some t \<Rightarrow> t \<le> now | None \<Rightarrow> False)
      then (Inl BadRequestException, st)
      else
        let (schedule, st1) =
              storage_create newId now
                \<lparr>id_s = [], type = dto_type dto, name = dto_name dto, message = dto_message dto,
                 chatId = (if truthy (dto_chatId dto) then the (dto_chatId dto)
                           else defaultChatId e),
                 enabled = True, createdAt = 0, cron = dto_cron dto,
                 scheduledAt = dto_scheduledAt dto, eventTime = dto_eventTime dto,
                 description = dto_description dto\<rparr> st
        in if type schedule = fixed then (Inr schedule, startCronJob e schedule st1)
           else if type schedule = manual then
             (case startTimer now schedule st1 of
                Inl err \<Rightarrow> (Inl err, st1)
              | Inr st2 \<Rightarrow> (Inr schedule, st2))
           else (Inr schedule, st1))"

definition isToday :: "int \<Rightarrow> int \<Rightarrow> bool" where
  "isToday now t =
     (let kstNow = now + 9 * 60 * 60 * 1000;
          kstScheduled = t + 9 * 60 * 60 * 1000;
          todayKst = Date_UTC (getUTCFullYear kstNow) (getUTCMonth kstNow) (getUTCDate kstNow);
          eventKst = Date_UTC (getUTCFullYear kstScheduled) (getUTCMonth kstScheduled)
                       (getUTCDate kstScheduled)
      in eventKst = todayKst)"

text \<open>The type filter is the query string; a record's type is compared with it as a
  string.\<close>

fun typeName :: "ScheduleType \<Rightarrow> string" where
  "typeName fixed = ''fixed''"
| "typeName manual = ''manual''"
| "typeName event = ''event''"

definition findAllKeeps ::
  "int \<Rightarrow> string option \<Rightarrow> string option \<Rightarrow> ScheduledNotificationEntity \<Rightarrow> bool" where
  "findAllKeeps now typeFilter chatFilter s =
     (if truthy chatFilter \<and> chatId s \<noteq> the chatFilter then False
      else if truthy typeFilter \<and> typeName (type s) \<noteq> the typeFilter then False
      else if type s = manual \<and> (case scheduledAt s of Some t \<Rightarrow> t \<le> now | None \<Rightarrow> False) then False
      else if type s = event \<and> (case scheduledAt s of Some t \<Rightarrow> \<not> isToday now t | None \<Rightarrow> False) then False
      else True)"

definition findAll ::
  "int \<Rightarrow> string option \<Rightarrow> string option \<Rightarrow> state \<Rightarrow> ScheduledNotificationEntity list" where
  "findAll now typeFilter chatFilter st =
     filter (findAllKeeps now typeFilter chatFilter) (storage_findAll st)"

definition findById :: "string \<Rightarrow> state \<Rightarrow> error + ScheduledNotificationEntity" where
  "findById i st = (case storage_findById i st of None \<Rightarrow> Inl NotFoundException | Some s \<Rightarrow> Inr s)"

text \<open>\<open>{ ...rest, scheduledAt: new Date(scheduledAt) }\<close>: the fields the body carries
  replace those of the row.\<close>

definition updateData :: "UpdateScheduleDto \<Rightarrow> ScheduledNotificationEntity \<Rightarrow> ScheduledNotificationEntity" where
  "updateData dto r =
     r\<lparr>name := (case upd_name dto of Some v \<Rightarrow> v | None \<Rightarrow> name r),
       message := (case upd_message dto of Some v \<Rightarrow> v | None \<Rightarrow> message r),
       chatId := (case upd_chatId dto of Some v \<Rightarrow> v | None \<Rightarrow> chatId r),
       cron := (case upd_cron dto of Some v \<Rightarrow> Some v | None \<Rightarrow> cron r),
       scheduledAt := (case upd_scheduledAt dto of Some v \<Rightarrow> Some v | None \<Rightarrow> scheduledAt r),
       enabled := (case upd_enabled dto of Some v \<Rightarrow> v | None \<Rightarrow> enabled r),
       eventTime := (case upd_eventTime dto of Some v \<Rightarrow> Some v | None \<Rightarrow> eventTime r),
       description := (case upd_description dto of Some v \<Rightarrow> Some v | None \<Rightarrow> description r)\<rparr>"

definition update ::
  "env \<Rightarrow> int \<Rightarrow> string \<Rightarrow> UpdateScheduleDto \<Rightarrow> state
     \<Rightarrow> (error + ScheduledNotificationEntity) \<times> state" where
  "update e now i dto st =
     (case findById i st of
        Inl err \<Rightarrow> (Inl err, st)
      | Inr existing \<Rightarrow>
          if (case upd_scheduledAt dto of Some t \<Rightarrow> t \<le> now | None \<Rightarrow> False) \<and> type existing = manual
          then (Inl BadRequestException, st)
          else
            let st1 = stopJob i st;
                (updatedOpt, st2) = storage_update i (updateData dto) st1
            in (case updatedOpt of
                  None \<Rightarrow> (Inl NotFoundException, st2)
                | Some updated \<Rightarrow>
                    if enabled updated then
                      (if type updated = fixed then (Inr updated, startCronJob e updated st2)
                       else if type updated = manual then
                         (if (case scheduledAt updated of Some t \<Rightarrow> t > now | None \<Rightarrow> False) then
                            (case startTimer now updated st2 of
                               Inl err \<Rightarrow> (Inl err, st2)
                             | Inr st3 \<Rightarrow> (Inr updated, st3))
                          else (Inr updated,
                                snd (storage_update i (\<lambda>r. r\<lparr>enabled := False\<rparr>) st2)))
                       else (Inr updated, st2))
                    else (Inr updated, st2)))"

definition delete :: "string \<Rightarrow> state \<Rightarrow> (error + unit) \<times> state" where
  "delete i st =
     (case findById i st of
        Inl err \<Rightarrow> (Inl err, st)
      | Inr schedule \<Rightarrow> (Inr (), snd (storage_delete i (stopJob i st))))"

text \<open>\<open>toggleEnabled\<close> returns \<open>result!\<close>, the row as the store holds it after the write.\<close>

definition toggleEnabled ::
  "env \<Rightarrow> int \<Rightarrow> string \<Rightarrow> state \<Rightarrow> (error + ScheduledNotificationEntity option) \<times> state" where
  "toggleEnabled e now i st =
     (case findById i st of
        Inl err \<Rightarrow> (Inl err, st)
      | Inr schedule \<Rightarrow>
          let newEnabled = \<not> enabled schedule;
              st1 = stopJob i st;
              started =
                (if newEnabled then
                   (if type schedule = fixed then Inr (startCronJob e schedule st1)
                    else if type schedule = manual then
                      (if scheduledAt schedule = None \<or> the (scheduledAt schedule) \<le> now
                       then Inl BadRequestException
                       else startTimer now schedule st1)
                    else Inr st1)
                 else Inr st1)
          in (case started of
                Inl err \<Rightarrow> (Inl err, st1)
              | Inr st2 \<Rightarrow>
                  (let (result, st3) = storage_update i (\<lambda>r. r\<lparr>enabled := newEnabled\<rparr>) st2
                   in (Inr result, st3))))"


section \<open>Daily Summary Aggregator\<close>

text \<open>The two day-half markers of the time label, as the UTF-8 bytes of the Korean words for
  "before noon" and "after noon".\<close>

definition AM :: string where
  "AM = [CHR 0xEC, CHR 0x98, CHR 0xA4, CHR 0xEC, CHR 0xA0, CHR 0x84]"

definition PM :: string where
  "PM = [CHR 0xEC, CHR 0x98, CHR 0xA4, CHR 0xED, CHR 0x9B, CHR 0x84]"

definition ampm :: "jsnum \<Rightarrow> string" where
  "ampm hour = (if js_lt hour (Fin 12) then AM else PM)"

definition h12 :: "jsnum \<Rightarrow> jsnum" where
  "h12 hour =
     (if js_eq hour (Fin 0) then Fin 12
      else if js_gt hour (Fin 12) then js_sub hour 12
      else hour)"

definition timeLabel :: "jsnum \<Rightarrow> jsnum \<Rightarrow> string" where
  "timeLabel hour minute = ampm hour @ '' '' @ String_js (h12 hour) @ '':'' @ pad minute"

definition formatHHmm :: "string \<Rightarrow> string" where
  "formatHHmm time =
     (let ps = String_split (CHR '':'') time;
          h = nth_Number ps 0
      in ampm h @ '' '' @ String_js (h12 h) @ '':''
         @ (if 1 < length ps then ps ! 1 else ''undefined''))"

text \<open>The time a line of the digest shows for an alarm.\<close>

definition shownTime :: "alarmItem \<Rightarrow> string" where
  "shownTime item =
     (if truthy (itemEventTime item) then formatHHmm (the (itemEventTime item))
      else itemTime item)"

definition isDateToday :: "int \<Rightarrow> int \<Rightarrow> bool" where
  "isDateToday date kstNow =
     (let kst = date + 9 * 60 * 60 * 1000
      in getUTCFullYear kst = getUTCFullYear kstNow
         \<and> getUTCMonth kst = getUTCMonth kstNow
         \<and> getUTCDate kst = getUTCDate kstNow)"

text \<open>The grouping loop: \<open>byChatId\<close> is a \<open>Map\<close>, which keeps its keys in the order of their
  first insertion.\<close>

fun groupByChatId ::
  "env \<Rightarrow> ScheduledNotificationEntity list \<Rightarrow> (string \<times> ScheduledNotificationEntity list) list
     \<Rightarrow> (string \<times> ScheduledNotificationEntity list) list" where
  "groupByChatId e [] byChatId = byChatId"
| "groupByChatId e (s # rest) byChatId =
     (let c = orDefault e (chatId s)
      in groupByChatId e rest
           (if c \<in> set (map fst byChatId)
            then map (\<lambda>(k, v). if k = c then (k, v @ [s]) else (k, v)) byChatId
            else byChatId @ [(c, [s])]))"

text \<open>The inner loop over the schedules of one group. The \<open>message\<close> field of an item is
  built by the source and never rendered; it is left out.\<close>

fun collectToday ::
  "int \<Rightarrow> ScheduledNotificationEntity list \<Rightarrow> alarmItem list \<times> string list
     \<Rightarrow> alarmItem list \<times> string list" where
  "collectToday kstNow [] acc = acc"
| "collectToday kstNow (s # rest) (todayAlarms, todayEvents) =
     (if type s = fixed \<and> truthy (cron s) then
        (if cronMatchesToday (the (cron s)) (getUTCDay kstNow) (getUTCDate kstNow)
              (getUTCMonth kstNow + 1)
         then
           (let parts = split_ws (trim (the (cron s)));
                hour = nth_Number parts 1;
                minute = nth_Number parts 0
            in collectToday kstNow rest
                 (todayAlarms @ [\<lparr>itemName = name s, itemTime = timeLabel hour minute,
                                   itemEventTime = eventTime s\<rparr>], todayEvents))
         else collectToday kstNow rest (todayAlarms, todayEvents))
      else if type s = manual \<and> scheduledAt s \<noteq> None then
        (if isDateToday (the (scheduledAt s)) kstNow then
           (let kstScheduled = the (scheduledAt s) + 9 * 60 * 60 * 1000;
                hour = Fin (real_of_int (getUTCHours kstScheduled));
                minute = Fin (real_of_int (getUTCMinutes kstScheduled))
            in collectToday kstNow rest
                 (todayAlarms @ [\<lparr>itemName = name s, itemTime = timeLabel hour minute,
                                   itemEventTime = eventTime s\<rparr>], todayEvents))
         else collectToday kstNow rest (todayAlarms, todayEvents))
      else if type s = event \<and> scheduledAt s \<noteq> None then
        (if isDateToday (the (scheduledAt s)) kstNow
         then collectToday kstNow rest (todayAlarms, todayEvents @ [name s])
         else collectToday kstNow rest (todayAlarms, todayEvents))
      else collectToday kstNow rest (todayAlarms, todayEvents))"

fun summaryLoop ::
  "env \<Rightarrow> int \<Rightarrow> (string \<times> ScheduledNotificationEntity list) list \<Rightarrow> state \<Rightarrow> state" where
  "summaryLoop e kstNow [] st = st"
| "summaryLoop e kstNow ((c, schedules) # groups) st =
     (let (todayAlarms, todayEvents) = collectToday kstNow schedules ([], []) in
      if todayAlarms = [] \<and> todayEvents = [] then summaryLoop e kstNow groups st
      else
        let sorted = Array_sort (\<lambda>a b. localeCompare (itemTime a) (itemTime b)) todayAlarms;
            p = Digest kstNow todayEvents sorted
        in summaryLoop e kstNow groups
             (st\<lparr>outbox := outbox st @ [(c, p, sendMessage_ok e c p)]\<rparr>))"

definition sendDailySummary :: "env \<Rightarrow> int \<Rightarrow> state \<Rightarrow> state" where
  "sendDailySummary e now st =
     (let all = storage_findAll st;
          enabled' = filter enabled all;
          byChatId = groupByChatId e enabled' [];
          kstNow = now + 9 * 60 * 60 * 1000
      in summaryLoop e kstNow byChatId st)"


section \<open>Specification-side notions\<close>

text \<open>The sub-terms of a cron field as the specification names them, their concrete
  syntax, and when the specification says a value matches one. A remainder by zero is NaN in
  the source language, so a step of zero matches nothing.\<close>

datatype subTerm = Literal nat | Interval nat nat | Step nat

fun showSubTerm :: "subTerm \<Rightarrow> string" where
  "showSubTerm (Literal n) = dec n"
| "showSubTerm (Interval a b) = dec a @ ''-'' @ dec b"
| "showSubTerm (Step n) = ''*/'' @ dec n"

fun joinComma :: "string list \<Rightarrow> string" where
  "joinComma [] = []"
| "joinComma [p] = p"
| "joinComma (p # q # ps) = p @ '','' @ joinComma (q # ps)"

fun subTermMatches :: "subTerm \<Rightarrow> int \<Rightarrow> bool" where
  "subTermMatches (Literal n) v = (v = int n)"
| "subTermMatches (Interval a b) v = (int a \<le> v \<and> v \<le> int b)"
| "subTermMatches (Step n) v = (n \<noteq> 0 \<and> v mod int n = 0)"

text \<open>The live registry at one id: the entry of the cron-job map and the entry of the timer
  map.\<close>

datatype handle = CronHandle ScheduledNotificationEntity | TimerHandle ScheduledNotificationEntity

definition liveEntries :: "state \<Rightarrow> string \<Rightarrow> handle list" where
  "liveEntries st i =
     (case cronJobs st i of None \<Rightarrow> [] | Some j \<Rightarrow> [CronHandle j])
     @ (case timers st i of None \<Rightarrow> [] | Some t \<Rightarrow> [TimerHandle t])"

text \<open>The number of entries in the two registries together.\<close>

definition registrySize :: "state \<Rightarrow> nat" where
  "registrySize st = card (dom (cronJobs st)) + card (dom (timers st))"

text \<open>One step of a running scheduler: a public operation, or the runtime running a
  callback. The database never hands out a primary key twice.\<close>

inductive step :: "env \<Rightarrow> state \<Rightarrow> state \<Rightarrow> bool" for e :: env where
  step_create: "newId \<notin> set (map id_s (store st)) \<Longrightarrow> step e st (snd (create e now newId dto st))"
| step_update: "step e st (snd (update e now i udto st))"
| step_delete: "step e st (snd (delete i st))"
| step_toggle: "step e st (snd (toggleEnabled e now i st))"
| step_cronTick: "step e st (cronTick e i st)"
| step_timerFire: "step e st (timerFire e i st)"
| step_summary: "step e st (sendDailySummary e now st)"
| step_shutdown: "step e st (clearAllJobs st)"

text \<open>A process starts on the rows a previous run left in the table, with empty
  registries.\<close>

definition freshProcess :: "ScheduledNotificationEntity list \<Rightarrow> state" where
  "freshProcess rows = \<lparr>store = rows, cronJobs = Map.empty, timers = Map.empty, outbox = []\<rparr>"

text \<open>Every state that steps and restores, in any order, lead to. The callback of a timer
  is suspended while its send is in flight, so it may also finish after other operations have
  run, on the schedule object it was started with.\<close>

inductive reachable :: "env \<Rightarrow> state \<Rightarrow> bool" for e :: env where
  reachable_start: "distinct (map id_s rows) \<Longrightarrow> reachable e (freshProcess rows)"
| reachable_restore: "reachable e st \<Longrightarrow> reachable e (snd (restoreSchedules e now st))"
| reachable_step: "reachable e st \<Longrightarrow> step e st st' \<Longrightarrow> reachable e st'"
| reachable_lateCallback: "reachable e st \<Longrightarrow> reachable e (timerCallback e schedule st)"

text \<open>The states of the service as the module runs it: \<open>onModuleInit\<close> restores once, then the
  operations and callbacks follow.\<close>

inductive running :: "env \<Rightarrow> state \<Rightarrow> bool" for e :: env where
  running_init:
    "distinct (map id_s rows) \<Longrightarrow> running e (snd (restoreSchedules e now (freshProcess rows)))"
| running_step: "running e st \<Longrightarrow> step e st st' \<Longrightarrow> running e st'"

text \<open>The invariant behind the registry properties: ids are unique in the table, and a
  registered handle sits under the id of its schedule, whose row has the matching type (and,
  in the strict form, is enabled).\<close>

definition rowOk :: "bool \<Rightarrow> ScheduleType \<Rightarrow> state \<Rightarrow> string \<Rightarrow> bool" where
  "rowOk strict ty st i =
     (\<exists>r\<in>set (store st). id_s r = i \<and> type r = ty \<and> (strict \<longrightarrow> enabled r))"

definition registryInv :: "bool \<Rightarrow> state \<Rightarrow> bool" where
  "registryInv strict st =
     (distinct (map id_s (store st))
      \<and> (\<forall>i h. cronJobs st i = Some h \<longrightarrow> id_s h = i \<and> rowOk strict fixed st i)
      \<and> (\<forall>i h. timers st i = Some h \<longrightarrow> id_s h = i \<and> rowOk strict manual st i))"

text \<open>What \<open>findAll\<close> shows, in the words of its description: the two filters, and the two
  read-time rules that hide a record.\<close>

definition passesFilters ::
  "string option \<Rightarrow> string option \<Rightarrow> ScheduledNotificationEntity \<Rightarrow> bool" where
  "passesFilters typeFilter chatFilter s =
     ((truthy chatFilter \<longrightarrow> chatId s = the chatFilter)
      \<and> (truthy typeFilter \<longrightarrow> typeName (type s) = the typeFilter))"

definition hiddenManual :: "int \<Rightarrow> ScheduledNotificationEntity \<Rightarrow> bool" where
  "hiddenManual now s =
     (type s = manual \<and> (case scheduledAt s of Some t \<Rightarrow> t \<le> now | None \<Rightarrow> False))"

definition hiddenEvent :: "int \<Rightarrow> ScheduledNotificationEntity \<Rightarrow> bool" where
  "hiddenEvent now s =
     (type s = event \<and> (case scheduledAt s of Some t \<Rightarrow> \<not> isToday now t | None \<Rightarrow> False))"

text \<open>What restart recovery is to do with one row: start a job, start a timer, mark the
  row expired, or nothing; and the data model's rule that a Manual row carries
  \<open>scheduledAt\<close>.\<close>

definition startsJob :: "env \<Rightarrow> ScheduledNotificationEntity \<Rightarrow> bool" where
  "startsJob e r = (enabled r \<and> type r = fixed \<and> CronJob_ok e (cron r))"

definition startsTimer :: "int \<Rightarrow> ScheduledNotificationEntity \<Rightarrow> bool" where
  "startsTimer now r =
     (enabled r \<and> type r = manual \<and> (case scheduledAt r of Some t \<Rightarrow> now < t | None \<Rightarrow> False))"

definition expired :: "int \<Rightarrow> ScheduledNotificationEntity \<Rightarrow> bool" where
  "expired now r =
     (enabled r \<and> type r = manual \<and> (case scheduledAt r of Some t \<Rightarrow> t \<le> now | None \<Rightarrow> False))"

definition restoredEntry :: "env \<Rightarrow> int \<Rightarrow> ScheduledNotificationEntity \<Rightarrow> handle list" where
  "restoredEntry e now r =
     (if startsJob e r then [CronHandle r]
      else if startsTimer now r then [TimerHandle r]
      else [])"

definition restoredRow :: "int \<Rightarrow> ScheduledNotificationEntity \<Rightarrow> ScheduledNotificationEntity" where
  "restoredRow now r = (if expired now r then r\<lparr>enabled := False\<rparr> else r)"

definition manualHaveTime :: "ScheduledNotificationEntity list \<Rightarrow> bool" where
  "manualHaveTime rows =
     list_all (\<lambda>r. enabled r \<and> type r = manual \<longrightarrow> scheduledAt r \<noteq> None) rows"

text \<open>One round of the restore loop on a row, when the round does not throw.\<close>

definition restoreStep :: "env \<Rightarrow> int \<Rightarrow> ScheduledNotificationEntity \<Rightarrow> state \<Rightarrow> state" where
  "restoreStep e now s st =
     (if startsJob e s then st\<lparr>cronJobs := (cronJobs st)(id_s s \<mapsto> s)\<rparr>
      else if startsTimer now s then st\<lparr>timers := (timers st)(id_s s \<mapsto> s)\<rparr>
      else if expired now s
        then snd (storage_update (id_s s) (\<lambda>r. r\<lparr>enabled := False\<rparr>) st)
      else st)"

section \<open>Example data\<close>

definition demoEnv :: env where
  "demoEnv = \<lparr>defaultChatId = ''D'', CronJob_ok = (\<lambda>c. c \<noteq> Some ''bad''),
              sendMessage_ok = (\<lambda>c p. False)\<rparr>"

definition demoManual :: ScheduledNotificationEntity where
  "demoManual = \<lparr>id_s = ''m1'', type = manual, name = ''once'', message = ''hello'',
                 chatId = [], enabled = True, createdAt = 1, cron = None,
                 scheduledAt = Some 100, eventTime = None, description = None\<rparr>"

definition demoBadFixed :: CreateScheduleDto where
  "demoBadFixed = \<lparr>dto_type = fixed, dto_name = ''broken'', dto_message = ''hi'',
                   dto_chatId = Some ''C1'', dto_cron = Some ''bad'', dto_scheduledAt = None,
                   dto_eventTime = None, dto_description = None\<rparr>"

definition demoFixed :: ScheduledNotificationEntity where
  "demoFixed = \<lparr>id_s = ''f1'', type = fixed, name = ''daily'', message = ''good morning'',
                chatId = ''C1'', enabled = True, createdAt = 2, cron = Some ''0 9 * * 1-5'',
                scheduledAt = None, eventTime = None, description = None\<rparr>"

definition demoNine :: ScheduledNotificationEntity where
  "demoNine = \<lparr>id_s = ''a'', type = fixed, name = ''nine'', message = ''stand-up'',
               chatId = ''C1'', enabled = True, createdAt = 1, cron = Some ''0 9 * * *'',
               scheduledAt = None, eventTime = None, description = None\<rparr>"

definition demoTen :: ScheduledNotificationEntity where
  "demoTen = \<lparr>id_s = ''b'', type = fixed, name = ''ten'', message = ''review'',
              chatId = ''C1'', enabled = True, createdAt = 2, cron = Some ''0 10 * * *'',
              scheduledAt = None, eventTime = None, description = None\<rparr>"

definition demoFixedDto :: CreateScheduleDto where
  "demoFixedDto = \<lparr>dto_type = fixed, dto_name = ''daily'', dto_message = ''good morning'',
                   dto_chatId = Some ''C1'', dto_cron = Some ''0 9 * * 1-5'',
                   dto_scheduledAt = None, dto_eventTime = None, dto_description = None\<rparr>"

definition demoManualDto :: CreateScheduleDto where
  "demoManualDto = \<lparr>dto_type = manual, dto_name = ''once'', dto_message = ''hello'',
                    dto_chatId = None, dto_cron = None, dto_scheduledAt = Some 100,
                    dto_eventTime = None, dto_description = None\<rparr>"

definition demoReschedule :: UpdateScheduleDto where
  "demoReschedule = \<lparr>upd_name = None, upd_message = None, upd_chatId = None, upd_cron = None,
                     upd_scheduledAt = Some 150, upd_enabled = None, upd_eventTime = None,
                     upd_description = None\<rparr>"


definition demoFired :: state where
  "demoFired =
     timerFire demoEnv ''m1''
       (snd (create demoEnv 50 ''m1'' demoManualDto
         (snd (restoreSchedules demoEnv 0 (freshProcess [])))))"

text \<open>A table for restart recovery at time 1000: three enabled Fixed rows, an enabled Manual
  row in the future, an enabled Manual row in the past. And a table whose only row is an
  enabled Fixed row with a cron string the job constructor rejects.\<close>

definition demoRow :: "string \<Rightarrow> ScheduleType \<Rightarrow> string option \<Rightarrow> int option \<Rightarrow> int
    \<Rightarrow> ScheduledNotificationEntity" where
  "demoRow i ty c t created =
     \<lparr>id_s = i, type = ty, name = i, message = ''text'', chatId = ''C1'', enabled = True,
      createdAt = created, cron = c, scheduledAt = t, eventTime = None, description = None\<rparr>"

definition demoTable :: "ScheduledNotificationEntity list" where
  "demoTable =
     [demoRow ''a'' fixed (Some ''0 9 * * *'') None 1,
      demoRow ''b'' fixed (Some ''0 10 * * 1-5'') None 2,
      demoRow ''c'' manual None (Some 2000) 3,
      demoRow ''d'' fixed (Some ''30 18 1 * *'') None 4,
      demoRow ''e'' manual None (Some 500) 5]"

definition demoBadTable :: "ScheduledNotificationEntity list" where
  "demoBadTable = [demoRow ''x'' fixed (Some ''bad'') None 1]"

section \<open>Verification: the interpreter\<close>

subsection \<open>Decimal literals and splitting\<close>

declare dec.simps [simp del]

lemma lt10_cases: "d < 10 \<Longrightarrow> d \<in> {0,1,2,3,4,5,6,7,8,9::nat}"
  by auto

lemma hexVal_digitChar: "d < 10 \<Longrightarrow> hexVal (digitChar d) = d"
  using lt10_cases[of d] by (auto simp: hexVal_def digitChar_def)

lemma isDigit_digitChar: "d < 10 \<Longrightarrow> isDigit (digitChar d)"
  using lt10_cases[of d] by (auto simp: isDigit_def digitChar_def)

lemma dec_digits: "list_all isDigit (dec n)"
  by (induction n rule: dec.induct) (subst dec.simps, simp add: isDigit_digitChar)

lemma dec_nonempty: "dec n \<noteq> []"
  by (subst dec.simps) simp

lemma digitsVal_snoc: "digitsVal b (ds @ [c]) = b * digitsVal b ds + hexVal c"
  by (simp add: digitsVal_def)

lemma digitsVal_dec: "digitsVal 10 (dec n) = n"
proof (induction n rule: dec.induct)
  case (1 n)
  show ?case
  proof (cases "n < 10")
    case True
    then show ?thesis by (subst dec.simps) (simp add: digitsVal_def hexVal_digitChar)
  next
    case False
    then have "digitsVal 10 (dec (n div 10)) = n div 10" using 1 by simp
    with False show ?thesis
      by (subst dec.simps) (simp add: digitsVal_snoc hexVal_digitChar)
  qed
qed

lemma isDigit_not_ws: "isDigit c \<Longrightarrow> \<not> isWhiteSpace c"
  by (auto simp: isDigit_def isWhiteSpace_def)


lemma dropWhile_hd_id: "xs \<noteq> [] \<Longrightarrow> \<not> P (hd xs) \<Longrightarrow> dropWhile P xs = xs"
  by (cases xs) auto

lemma trim_id: "s \<noteq> [] \<Longrightarrow> \<not> isWhiteSpace (hd s) \<Longrightarrow> \<not> isWhiteSpace (last s) \<Longrightarrow> trim s = s"
  by (simp add: trim_def dropWhile_hd_id hd_rev)

lemma list_all_hd: "list_all P xs \<Longrightarrow> xs \<noteq> [] \<Longrightarrow> P (hd xs)"
  by (cases xs) auto

lemma list_all_last: "list_all P xs \<Longrightarrow> xs \<noteq> [] \<Longrightarrow> P (last xs)"
  by (induction xs) auto

lemma trim_digits: "list_all isDigit s \<Longrightarrow> s \<noteq> [] \<Longrightarrow> trim s = s"
  by (rule trim_id) (auto dest: list_all_hd list_all_last isDigit_not_ws)

lemma isDigit_not_prefix:
  assumes "isDigit p"
  shows "p \<notin> set ''xX''" "p \<notin> set ''oO''" "p \<notin> set ''bB''"
  using assms by (auto simp: isDigit_def)

lemma nonDecimal_digits: "list_all isDigit s \<Longrightarrow> nonDecimalIntegerLiteral s = None"
proof (cases s)
  case Nil
  then show ?thesis by (simp add: nonDecimalIntegerLiteral_def)
next
  case (Cons z r)
  assume a: "list_all isDigit s"
  show ?thesis
  proof (cases r)
    case Nil
    with Cons show ?thesis by (simp add: nonDecimalIntegerLiteral_def)
  next
    case (Cons p ds)
    with a \<open>s = z # r\<close> have "isDigit p" by simp
    from isDigit_not_prefix[OF this] Cons \<open>s = z # r\<close> show ?thesis
      by (simp only: nonDecimalIntegerLiteral_def list.case if_False simp_thms split: if_splits)
  qed
qed

lemma takeWhile_all: "list_all P xs \<Longrightarrow> takeWhile P xs = xs"
  by (induction xs) auto

lemma dropWhile_all: "list_all P xs \<Longrightarrow> dropWhile P xs = []"
  by (induction xs) auto

lemma StrUnsigned_digits:
  assumes "list_all isDigit s" "s \<noteq> []"
  shows "StrUnsignedDecimalLiteral s = Fin (real (digitsVal 10 s))"
proof -
  have "s \<noteq> ''Infinity''" using assms(1) by (auto simp: isDigit_def)
  then show ?thesis
    using assms
    by (simp add: StrUnsignedDecimalLiteral_def takeWhile_all dropWhile_all
        exponentPart_def pow10_def digitsVal_def)
qed

lemma Number_js_digits:
  assumes "list_all isDigit s" "s \<noteq> []"
  shows "Number_js s = Fin (real (digitsVal 10 s))"
proof -
  have h: "isDigit (hd s)" using assms by (rule list_all_hd)
  then have "hd s \<noteq> CHR ''+''" "hd s \<noteq> CHR ''-''" by (auto simp: isDigit_def)
  then show ?thesis
    using assms
    by (simp add: Number_js_def trim_digits nonDecimal_digits StrUnsigned_digits)
qed

lemma Number_js_dec: "Number_js (dec n) = Fin (real n)"
  by (simp add: Number_js_digits dec_digits dec_nonempty digitsVal_dec)

lemma String_split_nonempty: "String_split c s \<noteq> []"
  by (induction s) (auto split: list.splits)

lemma String_split_none: "c \<notin> set s \<Longrightarrow> String_split c s = [s]"
  by (induction s) auto

lemma String_split_append:
  "c \<notin> set xs \<Longrightarrow> String_split c (xs @ c # ys) = xs # String_split c ys"
  by (induction xs) auto

lemma cronFieldLoop_iff: "cronFieldLoop parts v \<longleftrightarrow> (\<exists>part\<in>set parts. fieldPartMatches part v)"
  by (induction parts) auto

lemma cronDowLoop_iff: "cronDowLoop parts v \<longleftrightarrow> (\<exists>part\<in>set parts. dowPartMatches part v)"
  by (induction parts) auto


lemma trunc_of_int: "trunc (real_of_int k) = k"
  by (simp add: trunc_def)

lemma js_rem_zero_iff:
  assumes "n \<noteq> 0"
  shows "js_eq (js_rem (Fin (real_of_int v)) (Fin (real n))) (Fin 0) \<longleftrightarrow> v mod int n = 0"
proof
  assume "js_eq (js_rem (Fin (real_of_int v)) (Fin (real n))) (Fin 0)"
  then have "real_of_int v = real_of_int (int n * trunc (real_of_int v / real n))"
    using assms by simp
  then have "v = int n * trunc (real_of_int v / real n)"
    by (simp only: of_int_eq_iff)
  then have "int n dvd v" by (metis dvd_triv_left)
  then show "v mod int n = 0" by simp
next
  assume "v mod int n = 0"
  then obtain k where k: "v = int n * k" by auto
  have "real_of_int v / real n = real_of_int k"
    using assms by (simp add: k)
  then show "js_eq (js_rem (Fin (real_of_int v)) (Fin (real n))) (Fin 0)"
    using assms by (simp add: trunc_of_int k)
qed

lemma dec_no_char: "\<not> isDigit c \<Longrightarrow> c \<notin> set (dec n)"
  using dec_digits[of n] by (auto simp: list_all_iff)

lemma dec_no_slash [simp]: "CHR ''/'' \<notin> set (dec n)"
  by (rule dec_no_char) (simp add: isDigit_def)

lemma dec_no_minus [simp]: "CHR ''-'' \<notin> set (dec n)"
  by (rule dec_no_char) (simp add: isDigit_def)

lemma dec_no_comma [simp]: "CHR '','' \<notin> set (dec n)"
  by (rule dec_no_char) (simp add: isDigit_def)

lemma dec_no_star [simp]: "CHR ''*'' \<notin> set (dec n)"
  by (rule dec_no_char) (simp add: isDigit_def)

lemma js_cmp_Fin [simp]:
  "js_ge (Fin x) (Fin y) \<longleftrightarrow> y \<le> x" "js_le (Fin x) (Fin y) \<longleftrightarrow> x \<le> y"
  by (auto simp: js_ge_def js_le_def)

lemma fieldPartMatches_show: "fieldPartMatches (showSubTerm t) v = subTermMatches t v"
proof (cases t)
  case (Literal n)
  then show ?thesis
    by (auto simp: fieldPartMatches_def String_includes_def Number_js_dec)
next
  case (Interval a b)
  have "String_split (CHR ''-'') (dec a @ CHR ''-'' # dec b) = [dec a, dec b]"
    by (simp add: String_split_append String_split_none)
  with Interval show ?thesis
    by (auto simp: fieldPartMatches_def String_includes_def nth_Number_def Number_js_dec)
next
  case (Step n)
  have sp: "String_split (CHR ''/'') (''*'' @ CHR ''/'' # dec n) = [''*'', dec n]"
    by (subst String_split_append) (simp_all add: String_split_none)
  show ?thesis
  proof (cases "n = 0")
    case True
    with Step sp show ?thesis
      by (simp add: fieldPartMatches_def String_includes_def nth_Number_def Number_js_dec)
  next
    case False
    with Step sp js_rem_zero_iff[OF False, of v] show ?thesis
      by (simp add: fieldPartMatches_def String_includes_def nth_Number_def Number_js_dec)
  qed
qed

lemma showSubTerm_no_comma: "CHR '','' \<notin> set (showSubTerm t)"
  by (cases t) auto

lemma String_split_joinComma:
  "ps \<noteq> [] \<Longrightarrow> \<forall>p\<in>set ps. CHR '','' \<notin> set p \<Longrightarrow> String_split (CHR '','') (joinComma ps) = ps"
proof (induction ps rule: joinComma.induct)
  case 1
  then show ?case by simp
next
  case (2 p)
  then show ?case by (simp add: String_split_none)
next
  case (3 p q ps)
  then show ?case by (simp add: String_split_append)
qed

lemma showSubTerm_not_star: "showSubTerm t \<noteq> ''*''"
proof (cases t)
  case (Literal n)
  have "CHR ''*'' \<notin> set (dec n)" by simp
  then have "dec n \<noteq> ''*''" by (metis list.set_intros(1))
  then show ?thesis using Literal by simp
next
  case (Interval a b)
  then show ?thesis by (auto simp: append_eq_Cons_conv dec_nonempty)
next
  case (Step n)
  then show ?thesis by (simp add: dec_nonempty)
qed

lemma split_showField:
  "ts \<noteq> [] \<Longrightarrow> String_split (CHR '','') (joinComma (map showSubTerm ts)) = map showSubTerm ts"
  by (rule String_split_joinComma) (auto simp: showSubTerm_no_comma)

lemma showField_not_star:
  assumes "ts \<noteq> []"
  shows "joinComma (map showSubTerm ts) \<noteq> ''*''"
proof
  assume a: "joinComma (map showSubTerm ts) = ''*''"
  have "String_split (CHR '','') ''*'' = map showSubTerm ts"
    using split_showField[OF assms] a by simp
  then have "map showSubTerm ts = [''*'']" by simp
  then obtain t where "showSubTerm t = ''*''" by (cases ts) auto
  then show False using showSubTerm_not_star by blast
qed

lemma cronFieldMatches_grammar:
  assumes "ts \<noteq> []"
  shows "cronFieldMatches (joinComma (map showSubTerm ts)) v \<longleftrightarrow> (\<exists>t\<in>set ts. subTermMatches t v)"
  using assms
  by (simp add: cronFieldMatches_def showField_not_star split_showField cronFieldLoop_iff
      fieldPartMatches_show)

lemma split_ws_none: "\<forall>c\<in>set t. \<not> isWhiteSpace c \<Longrightarrow> split_ws t = [t]"
  by (induction t) auto

lemma split_ws_append:
  "\<forall>c\<in>set t. \<not> isWhiteSpace c \<Longrightarrow> isWhiteSpace x
     \<Longrightarrow> split_ws (t @ x # r) = t # split_ws (dropWhile isWhiteSpace r)"
  by (induction t) auto

lemma split_ws_token:
  assumes "\<forall>c\<in>set t. \<not> isWhiteSpace c" "r \<noteq> []" "\<not> isWhiteSpace (hd r)"
  shows "split_ws (t @ CHR '' '' # r) = t # split_ws r"
  using assms by (simp add: split_ws_append isWhiteSpace_def dropWhile_hd_id)

lemma five_fields:
  assumes "\<forall>f\<in>set [a, b, c, d, w]. f \<noteq> [] \<and> (\<forall>x\<in>set f. \<not> isWhiteSpace x)"
  shows "split_ws (trim (a @ '' '' @ b @ '' '' @ c @ '' '' @ d @ '' '' @ w)) = [a, b, c, d, w]"
proof -
  have ne: "a \<noteq> []" "b \<noteq> []" "c \<noteq> []" "d \<noteq> []" "w \<noteq> []" using assms by auto
  have nws: "\<forall>x\<in>set a. \<not> isWhiteSpace x" "\<forall>x\<in>set b. \<not> isWhiteSpace x"
    "\<forall>x\<in>set c. \<not> isWhiteSpace x" "\<forall>x\<in>set d. \<not> isWhiteSpace x"
    "\<forall>x\<in>set w. \<not> isWhiteSpace x" using assms by auto
  have hds: "\<not> isWhiteSpace (hd a)" "\<not> isWhiteSpace (hd b)" "\<not> isWhiteSpace (hd c)"
    "\<not> isWhiteSpace (hd d)" "\<not> isWhiteSpace (hd w)" "\<not> isWhiteSpace (last w)"
    using ne nws by auto
  have tok: "split_ws (t @ CHR '' '' # f @ r) = t # split_ws (f @ r)"
    if "\<forall>x\<in>set t. \<not> isWhiteSpace x" "f \<noteq> []" "\<not> isWhiteSpace (hd f)" for t f r
    using that by (intro split_ws_token) simp_all
  have 4: "split_ws (d @ CHR '' '' # w) = [d, w]"
    using tok[of d w "[]"] nws(4,5) ne(5) hds(5) by (simp add: split_ws_none)
  have 3: "split_ws (c @ CHR '' '' # d @ CHR '' '' # w) = [c, d, w]"
    using tok[of c d "CHR '' '' # w"] nws(3) ne(4) hds(4) 4 by simp
  have 2: "split_ws (b @ CHR '' '' # c @ CHR '' '' # d @ CHR '' '' # w) = [b, c, d, w]"
    using tok[of b c "CHR '' '' # d @ CHR '' '' # w"] nws(2) ne(3) hds(3) 3 by simp
  have 1: "split_ws (a @ CHR '' '' # b @ CHR '' '' # c @ CHR '' '' # d @ CHR '' '' # w) = [a, b, c, d, w]"
    using tok[of a b "CHR '' '' # c @ CHR '' '' # d @ CHR '' '' # w"] nws(1) ne(2) hds(2) 2 by simp
  have "trim (a @ CHR '' '' # b @ CHR '' '' # c @ CHR '' '' # d @ CHR '' '' # w)
        = a @ CHR '' '' # b @ CHR '' '' # c @ CHR '' '' # d @ CHR '' '' # w"
    using ne(1,5) hds(1,6) by (intro trim_id) simp_all
  with 1 show ?thesis by simp
qed

lemmas js_eval =
  cronFieldMatches_def fieldPartMatches_def cronDowMatches_def dowPartMatches_def
  String_includes_def nth_Number_def Number_js_def trim_def isWhiteSpace_def
  nonDecimalIntegerLiteral_def StrUnsignedDecimalLiteral_def isDigit_def digitsVal_def
  hexVal_def exponentPart_def pow10_def js_ge_def js_le_def trunc_def

subsection \<open>The three matchers\<close>

lemma Number_js_step: "Number_js (''*/'' @ dec n) = NaN"
proof -
  let ?s = "CHR ''*'' # CHR ''/'' # dec n"
  have "isDigit (last (dec n))" by (simp add: list_all_last dec_digits dec_nonempty)
  then have "\<not> isWhiteSpace (last ?s)" by (simp add: dec_nonempty isDigit_not_ws)
  then have t: "trim ?s = ?s" by (intro trim_id) (simp_all add: isWhiteSpace_def)
  have nd: "nonDecimalIntegerLiteral ?s = None" by (simp add: nonDecimalIntegerLiteral_def)
  have su: "StrUnsignedDecimalLiteral ?s = NaN"
    by (simp add: StrUnsignedDecimalLiteral_def isDigit_def)
  show ?thesis by (simp add: Number_js_def t nd su)
qed

lemma dowPartMatches_show:
  "dowPartMatches (showSubTerm (Literal n)) v \<longleftrightarrow> v = int n \<or> (n = 7 \<and> v = 0)"
  "dowPartMatches (showSubTerm (Interval a b)) v \<longleftrightarrow> int a \<le> v \<and> v \<le> int b"
  "\<not> dowPartMatches (showSubTerm (Step n)) v"
proof -
  show "dowPartMatches (showSubTerm (Literal n)) v \<longleftrightarrow> v = int n \<or> (n = 7 \<and> v = 0)"
    by (auto simp: dowPartMatches_def String_includes_def Number_js_dec)
  have "String_split (CHR ''-'') (dec a @ CHR ''-'' # dec b) = [dec a, dec b]"
    by (simp add: String_split_append String_split_none)
  then show "dowPartMatches (showSubTerm (Interval a b)) v \<longleftrightarrow> int a \<le> v \<and> v \<le> int b"
    by (auto simp: dowPartMatches_def String_includes_def nth_Number_def Number_js_dec)
  show "\<not> dowPartMatches (showSubTerm (Step n)) v"
    using Number_js_step[of n] by (simp add: dowPartMatches_def String_includes_def)
qed

text \<open>
  Claim C7. \<open>cronFieldMatches\<close> (the specification's \<open>matchField\<close>) is true exactly when the
  field is \<open>*\<close> or some comma-separated part matches. On every field written in the
  specification's grammar (a non-empty list of literals, ranges \<open>a-b\<close> and steps \<open>*/n\<close>) a
  literal matches iff it equals the value, a range iff the value lies between its bounds
  inclusive, a step iff the remainder of the value by \<open>n\<close> is zero. The five examples of the
  specification hold.
\<close>

theorem cronFieldMatches_spec:
  "(cronFieldMatches field v \<longleftrightarrow>
      field = ''*'' \<or> (\<exists>part\<in>set (String_split (CHR '','') field). fieldPartMatches part v))
   \<and> (ts \<noteq> [] \<longrightarrow>
        (cronFieldMatches (joinComma (map showSubTerm ts)) v \<longleftrightarrow> (\<exists>t\<in>set ts. subTermMatches t v)))
   \<and> cronFieldMatches ''*'' v
   \<and> cronFieldMatches ''1-5'' 3 \<and> \<not> cronFieldMatches ''1-5'' 6
   \<and> cronFieldMatches ''1,3,5'' 3 \<and> \<not> cronFieldMatches ''1,3,5'' 4"
proof (intro conjI)
  show "cronFieldMatches field v \<longleftrightarrow>
      field = ''*'' \<or> (\<exists>part\<in>set (String_split (CHR '','') field). fieldPartMatches part v)"
    by (simp add: cronFieldMatches_def cronFieldLoop_iff)
  show "ts \<noteq> [] \<longrightarrow>
        (cronFieldMatches (joinComma (map showSubTerm ts)) v \<longleftrightarrow> (\<exists>t\<in>set ts. subTermMatches t v))"
    using cronFieldMatches_grammar by blast
  show "cronFieldMatches ''*'' v" by (simp add: cronFieldMatches_def)
  show "cronFieldMatches ''1-5'' 3" by (simp add: js_eval)
  show "\<not> cronFieldMatches ''1-5'' 6" by (simp add: js_eval)
  show "cronFieldMatches ''1,3,5'' 3" by (simp add: js_eval)
  show "\<not> cronFieldMatches ''1,3,5'' 4" by (simp add: js_eval)
qed

theorem cronFieldMatches_spec_witness:
  "[Literal 1, Interval 10 12, Step 5] \<noteq> []
   \<and> cronFieldMatches (joinComma (map showSubTerm [Literal 1, Interval 10 12, Step 5])) 15
   \<and> \<not> cronFieldMatches (joinComma (map showSubTerm [Literal 1, Interval 10 12, Step 5])) 13"
proof -
  have ne: "[Literal 1, Interval 10 12, Step 5] \<noteq> []" by simp
  have a: "cronFieldMatches (joinComma (map showSubTerm [Literal 1, Interval 10 12, Step 5])) 15
      \<longleftrightarrow> (\<exists>t\<in>set [Literal 1, Interval 10 12, Step 5]. subTermMatches t 15)"
    using cronFieldMatches_spec[of _ 15 "[Literal 1, Interval 10 12, Step 5]"] ne by blast
  have b: "cronFieldMatches (joinComma (map showSubTerm [Literal 1, Interval 10 12, Step 5])) 13
      \<longleftrightarrow> (\<exists>t\<in>set [Literal 1, Interval 10 12, Step 5]. subTermMatches t 13)"
    using cronFieldMatches_spec[of _ 13 "[Literal 1, Interval 10 12, Step 5]"] ne by blast
  show ?thesis unfolding a b by simp
qed

text \<open>
  On an expression of five fields \<open>cronMatchesToday\<close> asks the three day-level matchers
  about the last three fields, and nothing about the first two.
\<close>

lemma cronMatchesToday_fields:
  assumes "split_ws (trim expr) = [minute, hour, dayOfMonth, month, dayOfWeek]"
  shows "(cronMatchesToday expr todayDow todayDate todayMonth \<longleftrightarrow>
            cronFieldMatches month todayMonth \<and> cronFieldMatches dayOfMonth todayDate
            \<and> cronDowMatches dayOfWeek todayDow)
         \<and> (\<forall>expr' minute' hour'.
              split_ws (trim expr') = [minute', hour', dayOfMonth, month, dayOfWeek] \<longrightarrow>
              cronMatchesToday expr' todayDow todayDate todayMonth
              = cronMatchesToday expr todayDow todayDate todayMonth)"
  using assms by (auto simp: cronMatchesToday_def Let_def)

text \<open>
  Claim C6, at the input where the code departs from it. \<open>cronDowMatches\<close> has no branch for
  step terms: a part \<open>*/n\<close> holds no \<open>-\<close>, so it is read as a number, which is NaN, and never
  matches, although \<open>cronFieldMatches\<close> matches \<open>*/2\<close> at 0. A schedule \<open>0 9 * * */2\<close> is
  therefore reported as not firing on a Sunday.
\<close>

theorem cronDowMatches_step_never:
  "\<not> cronDowMatches (showSubTerm (Step n)) v
   \<and> cronFieldMatches ''*/2'' 0 \<and> \<not> cronDowMatches ''*/2'' 0
   \<and> \<not> cronMatchesToday ''0 9 * * */2'' 0 1 11"
proof (intro conjI)
  have "String_split (CHR '','') (showSubTerm (Step n)) = [showSubTerm (Step n)]"
    by (rule String_split_none) (rule showSubTerm_no_comma)
  then show "\<not> cronDowMatches (showSubTerm (Step n)) v"
    using showSubTerm_not_star[of "Step n"] dowPartMatches_show(3)[of n v]
    by (simp add: cronDowMatches_def)
  show "cronFieldMatches ''*/2'' 0" by (simp add: js_eval)
  show d: "\<not> cronDowMatches ''*/2'' 0" by (simp add: js_eval)
  have "split_ws (trim ''0 9 * * */2'') = [''0'', ''9'', ''*'', ''*'', ''*/2'']"
    by (simp add: trim_def isWhiteSpace_def)
  then show "\<not> cronMatchesToday ''0 9 * * */2'' 0 1 11"
    using d by (simp add: cronMatchesToday_def)
qed

lemma cronDowMatches_sunday: "cronDowMatches ''0'' 0 \<and> cronDowMatches ''7'' 0"
  by (simp add: js_eval)

lemma cronDowMatches_Step_False: "\<not> cronDowMatches (showSubTerm (Step n)) v"
proof -
  have "String_split (CHR '','') (showSubTerm (Step n)) = [showSubTerm (Step n)]"
    by (rule String_split_none) (rule showSubTerm_no_comma)
  then show ?thesis
    using showSubTerm_not_star[of "Step n"] dowPartMatches_show(3)[of n v]
    by (simp add: cronDowMatches_def)
qed

lemma split_ws_dow_step:
  "split_ws (trim (''0 9 * * */'' @ dec n)) = [''0'', ''9'', ''*'', ''*'', showSubTerm (Step n)]"
proof -
  have "\<forall>x\<in>set (dec n). \<not> isWhiteSpace x"
    using dec_digits[of n] by (auto simp: list_all_iff dest: isDigit_not_ws)
  then have "\<forall>f\<in>set [''0'', ''9'', ''*'', ''*'', showSubTerm (Step n)].
               f \<noteq> [] \<and> (\<forall>x\<in>set f. \<not> isWhiteSpace x)"
    by (simp add: isWhiteSpace_def)
  from five_fields[OF this] show ?thesis by simp
qed

text \<open>
  Claim C5, at the input where the code departs from it. The day-level matcher must be true
  when the month field, the day-of-month field and the day-of-week field all match. For the
  expression \<open>0 9 * * */2\<close> on Sunday 1 November the month and the day-of-month are \<open>*\<close> and
  the step \<open>*/2\<close> matches the weekday 0 by the specification's rule, yet \<open>cronMatchesToday\<close>
  is false: it is false for every day-of-week step and every date, because \<open>cronDowMatches\<close>
  has no branch for step terms.
\<close>

theorem cronMatchesToday_misses_dow_step:
  "\<not> cronMatchesToday (''0 9 * * */'' @ dec n) todayDow todayDate todayMonth
   \<and> cronFieldMatches ''*'' 11 \<and> cronFieldMatches ''*'' 1 \<and> subTermMatches (Step 2) 0
   \<and> \<not> cronMatchesToday ''0 9 * * */2'' 0 1 11"
proof -
  have a: "\<not> cronMatchesToday (''0 9 * * */'' @ dec n) d dt m" for n d dt m
    using cronDowMatches_Step_False[of n d]
      cronMatchesToday_fields[OF split_ws_dow_step, of n d dt m]
    by blast
  have "dec 2 = ''2''" by (simp add: dec.simps digitChar_def)
  with a[of 2 0 1 11] have "\<not> cronMatchesToday ''0 9 * * */2'' 0 1 11" by simp
  with a show ?thesis by (simp add: cronFieldMatches_def)
qed

section \<open>Verification: the scheduler\<close>



subsection \<open>What the primitives do to the state\<close>

lemma stopJob_fields [simp]:
  "store (stopJob i st) = store st"
  "cronJobs (stopJob i st) = (cronJobs st)(i := None)"
  "timers (stopJob i st) = (timers st)(i := None)"
  "outbox (stopJob i st) = outbox st"
  by (simp_all add: stopJob_def)

lemma startCronJob_fields [simp]:
  "store (startCronJob e s st) = store st"
  "cronJobs (startCronJob e s st) =
     (if CronJob_ok e (cron s) then (cronJobs st)(id_s s \<mapsto> s) else cronJobs st)"
  "timers (startCronJob e s st) = timers st"
  "outbox (startCronJob e s st) = outbox st"
  by (simp_all add: startCronJob_def)

lemma startTimer_Inr:
  "startTimer now s st = Inr st' \<Longrightarrow>
     store st' = store st \<and> cronJobs st' = cronJobs st \<and> outbox st' = outbox st
     \<and> (timers st' = timers st \<or> timers st' = (timers st)(id_s s \<mapsto> s))"
  by (auto simp: startTimer_def Let_def split: option.splits if_splits)

lemma startTimer_future:
  "scheduledAt s = Some t \<Longrightarrow> now < t \<Longrightarrow>
     startTimer now s st = Inr (st\<lparr>timers := (timers st)(id_s s \<mapsto> s)\<rparr>)"
  by (simp add: startTimer_def)

lemma storage_update_fields [simp]:
  "store (snd (storage_update i p st)) = map (\<lambda>r. if id_s r = i then p r else r) (store st)"
  "cronJobs (snd (storage_update i p st)) = cronJobs st"
  "timers (snd (storage_update i p st)) = timers st"
  "outbox (snd (storage_update i p st)) = outbox st"
  by (simp_all add: storage_update_def Let_def)

lemma storage_delete_fields [simp]:
  "store (snd (storage_delete i st)) = filter (\<lambda>r. id_s r \<noteq> i) (store st)"
  "cronJobs (snd (storage_delete i st)) = cronJobs st"
  "timers (snd (storage_delete i st)) = timers st"
  "outbox (snd (storage_delete i st)) = outbox st"
  by (simp_all add: storage_delete_def)

lemma sendScheduledMessage_fields [simp]:
  "store (sendScheduledMessage e s st) = store st"
  "cronJobs (sendScheduledMessage e s st) = cronJobs st"
  "timers (sendScheduledMessage e s st) = timers st"
  "outbox (sendScheduledMessage e s st) =
     outbox st @ [(orDefault e (chatId s), Text (message s),
                   sendMessage_ok e (orDefault e (chatId s)) (Text (message s)))]"
  by (simp_all add: sendScheduledMessage_def Let_def)

lemma timerCallback_fields [simp]:
  "store (timerCallback e s st)
     = map (\<lambda>r. if id_s r = id_s s then r\<lparr>enabled := False\<rparr> else r) (store st)"
  "cronJobs (timerCallback e s st) = cronJobs st"
  "timers (timerCallback e s st) = (timers st)(id_s s := None)"
  "outbox (timerCallback e s st) =
     outbox st @ [(orDefault e (chatId s), Text (message s),
                   sendMessage_ok e (orDefault e (chatId s)) (Text (message s)))]"
  by (simp_all add: timerCallback_def Let_def)

text \<open>
  Claim C2. When the one-shot timer registered under an id fires, exactly one send is
  attempted (to the schedule's chat, or the default chat); afterwards every row with that id
  has \<open>enabled = False\<close> and the timer map has no entry for the id, whether the send
  resolved or was rejected: the store and the registries after the fire do not depend on the
  outcome of the send.
\<close>

theorem timerFire_disables:
  assumes "timers st i = Some schedule" and "id_s schedule = i"
  shows "outbox (timerFire e i st)
           = outbox st @ [(orDefault e (chatId schedule), Text (message schedule),
                           sendMessage_ok e (orDefault e (chatId schedule)) (Text (message schedule)))]
         \<and> store (timerFire e i st)
             = map (\<lambda>r. if id_s r = i then r\<lparr>enabled := False\<rparr> else r) (store st)
         \<and> (\<forall>r\<in>set (store (timerFire e i st)). id_s r = i \<longrightarrow> \<not> enabled r)
         \<and> timers (timerFire e i st) = (timers st)(i := None)
         \<and> cronJobs (timerFire e i st) = cronJobs st
         \<and> store (timerFire (e\<lparr>sendMessage_ok := ok\<rparr>) i st) = store (timerFire e i st)
         \<and> timers (timerFire (e\<lparr>sendMessage_ok := ok\<rparr>) i st) = timers (timerFire e i st)"
  using assms by (auto simp: timerFire_def)

theorem timerFire_disables_witness:
  "timers ((freshProcess [demoManual])\<lparr>timers := [''m1'' \<mapsto> demoManual]\<rparr>) ''m1'' = Some demoManual
   \<and> id_s demoManual = ''m1''
   \<and> outbox (timerFire demoEnv ''m1'' ((freshProcess [demoManual])\<lparr>timers := [''m1'' \<mapsto> demoManual]\<rparr>))
       = [(''D'', Text ''hello'', False)]
   \<and> store (timerFire demoEnv ''m1'' ((freshProcess [demoManual])\<lparr>timers := [''m1'' \<mapsto> demoManual]\<rparr>))
       = [demoManual\<lparr>enabled := False\<rparr>]
   \<and> timers (timerFire demoEnv ''m1'' ((freshProcess [demoManual])\<lparr>timers := [''m1'' \<mapsto> demoManual]\<rparr>)) ''m1''
       = None"
proof -
  let ?st = "(freshProcess [demoManual])\<lparr>timers := [''m1'' \<mapsto> demoManual]\<rparr>"
  have a: "timers ?st ''m1'' = Some demoManual" by simp
  have b: "id_s demoManual = ''m1''" by (simp add: demoManual_def)
  from timerFire_disables[OF a b, of demoEnv]
  show ?thesis using a b
    by (simp add: freshProcess_def orDefault_def demoEnv_def demoManual_def)
qed

text \<open>
  Claim C10. Creating a Fixed schedule whose cron string the CronJob constructor rejects
  returns the stored row without an error; the row is persisted with \<open>enabled = True\<close>, and
  the registries are unchanged, so no live job exists for the new id.
\<close>

theorem create_fixed_rejected_cron:
  assumes "dto_type dto = fixed" and "\<not> CronJob_ok e (dto_cron dto)"
  shows "\<exists>schedule.
           create e now newId dto st = (Inr schedule, st\<lparr>store := store st @ [schedule]\<rparr>)
           \<and> id_s schedule = newId \<and> type schedule = fixed \<and> enabled schedule
           \<and> cron schedule = dto_cron dto
           \<and> cronJobs (snd (create e now newId dto st)) = cronJobs st
           \<and> timers (snd (create e now newId dto st)) = timers st
           \<and> liveEntries (snd (create e now newId dto st)) newId = liveEntries st newId"
  using assms
  by (simp add: create_def storage_create_def Let_def startCronJob_def liveEntries_def)

theorem create_fixed_rejected_cron_witness:
  "dto_type demoBadFixed = fixed \<and> \<not> CronJob_ok demoEnv (dto_cron demoBadFixed)
   \<and> (\<exists>schedule. fst (create demoEnv 5 ''f1'' demoBadFixed (freshProcess [])) = Inr schedule
         \<and> enabled schedule
         \<and> store (snd (create demoEnv 5 ''f1'' demoBadFixed (freshProcess []))) = [schedule])
   \<and> liveEntries (snd (create demoEnv 5 ''f1'' demoBadFixed (freshProcess []))) ''f1'' = []"
proof -
  have a: "dto_type demoBadFixed = fixed" by (simp add: demoBadFixed_def)
  have b: "\<not> CronJob_ok demoEnv (dto_cron demoBadFixed)"
    by (simp add: demoBadFixed_def demoEnv_def)
  from create_fixed_rejected_cron[OF a b, of 5 "''f1''" "freshProcess []"]
  obtain schedule where
    c: "create demoEnv 5 ''f1'' demoBadFixed (freshProcess [])
          = (Inr schedule, (freshProcess [])\<lparr>store := store (freshProcess []) @ [schedule]\<rparr>)"
    and en: "enabled schedule"
    and l: "liveEntries (snd (create demoEnv 5 ''f1'' demoBadFixed (freshProcess []))) ''f1''
              = liveEntries (freshProcess []) ''f1''"
    by blast
  have "liveEntries (freshProcess []) ''f1'' = []" by (simp add: liveEntries_def freshProcess_def)
  with a b c en l show ?thesis by (simp add: freshProcess_def)
qed

text \<open>
  Claim C8 as stated fails: an enabled Manual row whose \<open>scheduledAt\<close> has elapsed is hidden.
\<close>

theorem findAll_hides_enabled_manual:
  "enabled demoManual \<and> type demoManual = manual
   \<and> demoManual \<in> set (store (freshProcess [demoManual]))
   \<and> findAll 200 None None (freshProcess [demoManual]) = []"
  by (simp add: demoManual_def freshProcess_def findAll_def findAllKeeps_def storage_findAll_def
      truthy_def)

text \<open>
  Claim C8, amended. \<open>findAll\<close> returns, in store order, the rows that pass the two filters
  and are not hidden; a Manual row is hidden exactly when its \<open>scheduledAt\<close> is set and has
  elapsed, an Event row exactly when its \<open>scheduledAt\<close> is set and its local calendar date is
  not today's; neither rule looks at the \<open>enabled\<close> flag.
\<close>

theorem findAll_visibility:
  "findAll now typeFilter chatFilter st
     = filter (\<lambda>s. passesFilters typeFilter chatFilter s
                   \<and> \<not> hiddenManual now s \<and> \<not> hiddenEvent now s) (storage_findAll st)
   \<and> hiddenManual now (s\<lparr>enabled := b\<rparr>) = hiddenManual now s
   \<and> hiddenEvent now (s\<lparr>enabled := b\<rparr>) = hiddenEvent now s"
proof -
  have "findAllKeeps now typeFilter chatFilter
          = (\<lambda>r. passesFilters typeFilter chatFilter r \<and> \<not> hiddenManual now r \<and> \<not> hiddenEvent now r)"
    by (rule ext) (auto simp: findAllKeeps_def passesFilters_def hiddenManual_def hiddenEvent_def)
  then have "findAll now typeFilter chatFilter st
     = filter (\<lambda>s. passesFilters typeFilter chatFilter s
                   \<and> \<not> hiddenManual now s \<and> \<not> hiddenEvent now s) (storage_findAll st)"
    by (simp only: findAll_def)
  then show ?thesis
    by (simp add: hiddenManual_def hiddenEvent_def)
qed

theorem findAll_visibility_witness:
  "findAll 200 (Some ''fixed'') None (freshProcess [demoManual, demoFixed]) = [demoFixed]
   \<and> findAll 200 None None (freshProcess [demoManual, demoFixed]) = [demoFixed]
   \<and> findAll 50 None None (freshProcess [demoManual, demoFixed]) = [demoManual, demoFixed]
   \<and> findAll 50 None (Some ''C1'') (freshProcess [demoManual, demoFixed]) = [demoFixed]"
proof -
  have sf: "storage_findAll (freshProcess [demoManual, demoFixed]) = [demoManual, demoFixed]"
    by (simp add: storage_findAll_def freshProcess_def demoManual_def demoFixed_def)
  have m: "type demoManual = manual" "scheduledAt demoManual = Some 100" "chatId demoManual = []"
    by (simp_all add: demoManual_def)
  have f: "type demoFixed = fixed" "chatId demoFixed = ''C1''" by (simp_all add: demoFixed_def)
  show ?thesis
    using findAll_visibility[of 200 "Some ''fixed''" None "freshProcess [demoManual, demoFixed]"]
      findAll_visibility[of 200 None None "freshProcess [demoManual, demoFixed]"]
      findAll_visibility[of 50 None None "freshProcess [demoManual, demoFixed]"]
      findAll_visibility[of 50 None "Some ''C1''" "freshProcess [demoManual, demoFixed]"]
    by (simp add: sf m f passesFilters_def hiddenManual_def hiddenEvent_def truthy_def)
qed

section \<open>Verification: the daily summary\<close>

lemma label_nine: "timeLabel (Number_js ''9'') (Number_js ''0'') = AM @ '' 9:00''"
  by (simp add: timeLabel_def ampm_def h12_def pad_def String_js_def js_gt_def js_eval dec.simps
      digitChar_def)

lemma label_ten: "timeLabel (Number_js ''10'') (Number_js ''0'') = AM @ '' 10:00''"
  by (simp add: timeLabel_def ampm_def h12_def pad_def String_js_def js_gt_def js_eval dec.simps
      digitChar_def)

lemma cmp_ten_nine: "localeCompare (AM @ '' 10:00'') (AM @ '' 9:00'') < 0"
  by (simp add: localeCompare_def AM_def primaryWeight_def isWhiteSpace_def punctuationOrder_def
      isDigit_def indexOf_def)


lemma matches_every_day:
  "cronMatchesToday ''0 9 * * *'' d dt mo" "cronMatchesToday ''0 10 * * *'' d dt mo"
  by (simp_all add: cronMatchesToday_def trim_def isWhiteSpace_def cronFieldMatches_def
      cronDowMatches_def)

lemma parts_nine_ten:
  "split_ws (trim ''0 9 * * *'') = [''0'', ''9'', ''*'', ''*'', ''*'']"
  "split_ws (trim ''0 10 * * *'') = [''0'', ''10'', ''*'', ''*'', ''*'']"
  by (simp_all add: trim_def isWhiteSpace_def)

lemma collect_nine_ten:
  "collectToday k [demoNine, demoTen] ([], [])
     = ([\<lparr>itemName = ''nine'', itemTime = AM @ '' 9:00'', itemEventTime = None\<rparr>,
         \<lparr>itemName = ''ten'', itemTime = AM @ '' 10:00'', itemEventTime = None\<rparr>], [])"
  using label_nine label_ten
  by (simp add: demoNine_def demoTen_def truthy_def matches_every_day parts_nine_ten
      nth_Number_def)

lemma sort_nine_ten:
  "Array_sort (\<lambda>a b. localeCompare (itemTime a) (itemTime b))
     [\<lparr>itemName = ''nine'', itemTime = AM @ '' 9:00'', itemEventTime = None\<rparr>,
      \<lparr>itemName = ''ten'', itemTime = AM @ '' 10:00'', itemEventTime = None\<rparr>]
   = [\<lparr>itemName = ''ten'', itemTime = AM @ '' 10:00'', itemEventTime = None\<rparr>,
      \<lparr>itemName = ''nine'', itemTime = AM @ '' 9:00'', itemEventTime = None\<rparr>]"
  using cmp_ten_nine by (simp add: Array_sort_def)

text \<open>
  Claim C9, at the input where the code departs from it. Two enabled Fixed schedules for
  the same chat, one at 09:00 and one at 10:00 every day: on every day one digest goes to
  that chat, and it lists the 10:00 alarm before the 09:00 alarm. The alarms are sorted by
  their time labels as text, and the label of 10:00 comes before the label of 9:00 because
  the digit 1 comes before the digit 9.
\<close>

theorem sendDailySummary_lists_ten_before_nine:
  "outbox (sendDailySummary demoEnv now (freshProcess [demoNine, demoTen]))
     = [(''C1'',
         Digest (now + 9 * 60 * 60 * 1000) []
           [\<lparr>itemName = ''ten'', itemTime = AM @ '' 10:00'', itemEventTime = None\<rparr>,
            \<lparr>itemName = ''nine'', itemTime = AM @ '' 9:00'', itemEventTime = None\<rparr>],
         False)]
   \<and> map shownTime
         [\<lparr>itemName = ''ten'', itemTime = AM @ '' 10:00'', itemEventTime = None\<rparr>,
          \<lparr>itemName = ''nine'', itemTime = AM @ '' 9:00'', itemEventTime = None\<rparr>]
       = [AM @ '' 10:00'', AM @ '' 9:00'']"
proof -
  have sf: "storage_findAll (freshProcess [demoNine, demoTen]) = [demoNine, demoTen]"
    by (simp add: storage_findAll_def freshProcess_def demoNine_def demoTen_def)
  have en: "filter enabled [demoNine, demoTen] = [demoNine, demoTen]"
    by (simp add: demoNine_def demoTen_def)
  have g: "groupByChatId demoEnv [demoNine, demoTen] [] = [(''C1'', [demoNine, demoTen])]"
    by (simp add: orDefault_def demoNine_def demoTen_def Let_def)
  have loop: "summaryLoop demoEnv k [(''C1'', [demoNine, demoTen])] st
      = st\<lparr>outbox := outbox st @
           [(''C1'',
             Digest k []
               [\<lparr>itemName = ''ten'', itemTime = AM @ '' 10:00'', itemEventTime = None\<rparr>,
                \<lparr>itemName = ''nine'', itemTime = AM @ '' 9:00'', itemEventTime = None\<rparr>],
             False)]\<rparr>" for k st
    by (subst summaryLoop.simps, subst collect_nine_ten)
       (simp add: sort_nine_ten demoEnv_def)
  have "sendDailySummary demoEnv now (freshProcess [demoNine, demoTen])
      = summaryLoop demoEnv (now + 9 * 60 * 60 * 1000) [(''C1'', [demoNine, demoTen])]
          (freshProcess [demoNine, demoTen])"
    by (simp only: sendDailySummary_def Let_def sf en g)
  then have o: "outbox (sendDailySummary demoEnv now (freshProcess [demoNine, demoTen]))
     = [(''C1'',
         Digest (now + 9 * 60 * 60 * 1000) []
           [\<lparr>itemName = ''ten'', itemTime = AM @ '' 10:00'', itemEventTime = None\<rparr>,
            \<lparr>itemName = ''nine'', itemTime = AM @ '' 9:00'', itemEventTime = None\<rparr>],
         False)]"
    by (simp only: loop) (simp add: freshProcess_def)
  have m: "map shownTime
         [\<lparr>itemName = ''ten'', itemTime = AM @ '' 10:00'', itemEventTime = None\<rparr>,
          \<lparr>itemName = ''nine'', itemTime = AM @ '' 9:00'', itemEventTime = None\<rparr>]
       = [AM @ '' 10:00'', AM @ '' 9:00'']"
    by (simp add: shownTime_def truthy_def)
  from o m show ?thesis by (rule conjI)
qed

section \<open>Verification: the registry\<close>

subsection \<open>The registry invariant\<close>

lemma registryInvI:
  assumes "distinct (map id_s (store st))"
    and "\<And>i h. cronJobs st i = Some h \<Longrightarrow> id_s h = i \<and> rowOk b fixed st i"
    and "\<And>i h. timers st i = Some h \<Longrightarrow> id_s h = i \<and> rowOk b manual st i"
  shows "registryInv b st"
  unfolding registryInv_def using assms by blast

lemma registryInv_distinct: "registryInv b st \<Longrightarrow> distinct (map id_s (store st))"
  unfolding registryInv_def by blast

lemma registryInv_cron:
  "registryInv b st \<Longrightarrow> cronJobs st i = Some h \<Longrightarrow> id_s h = i \<and> rowOk b fixed st i"
  unfolding registryInv_def by blast

lemma registryInv_timer:
  "registryInv b st \<Longrightarrow> timers st i = Some h \<Longrightarrow> id_s h = i \<and> rowOk b manual st i"
  unfolding registryInv_def by blast

lemma rowOk_cong: "store st' = store st \<Longrightarrow> rowOk b ty st' i = rowOk b ty st i"
  unfolding rowOk_def by simp

lemma registryInv_cong:
  assumes "store st' = store st" "cronJobs st' = cronJobs st" "timers st' = timers st"
  shows "registryInv b st' = registryInv b st"
  unfolding registryInv_def rowOk_def assms ..

lemma inv_freshProcess: "distinct (map id_s rows) \<Longrightarrow> registryInv b (freshProcess rows)"
  by (rule registryInvI) (simp_all add: freshProcess_def)


lemma inv_transfer:
  assumes inv: "registryInv b st"
    and d: "distinct (map id_s (store st'))"
    and c: "\<And>i h. cronJobs st' i = Some h \<Longrightarrow>
              (cronJobs st i = Some h \<and> (rowOk b fixed st i \<longrightarrow> rowOk b fixed st' i))
              \<or> (id_s h = i \<and> rowOk b fixed st' i)"
    and t: "\<And>i h. timers st' i = Some h \<Longrightarrow>
              (timers st i = Some h \<and> (rowOk b manual st i \<longrightarrow> rowOk b manual st' i))
              \<or> (id_s h = i \<and> rowOk b manual st' i)"
  shows "registryInv b st'"
proof (rule registryInvI)
  show "distinct (map id_s (store st'))" by (rule d)
next
  fix i h assume a: "cronJobs st' i = Some h"
  from c[OF a] registryInv_cron[OF inv, of i h]
  show "id_s h = i \<and> rowOk b fixed st' i" by blast
next
  fix i h assume a: "timers st' i = Some h"
  from t[OF a] registryInv_timer[OF inv, of i h]
  show "id_s h = i \<and> rowOk b manual st' i" by blast
qed

lemma rowOk_update_other:
  assumes "\<And>r. id_s (p r) = id_s r" "j \<noteq> i"
  shows "rowOk b ty (snd (storage_update i p st)) j = rowOk b ty st j"
proof -
  let ?f = "\<lambda>r. if id_s r = i then p r else r"
  have "(\<exists>r\<in>set (map ?f (store st)). id_s r = j \<and> type r = ty \<and> (b \<longrightarrow> enabled r))
        = (\<exists>r\<in>set (store st). id_s r = j \<and> type r = ty \<and> (b \<longrightarrow> enabled r))"
  proof
    assume "\<exists>r\<in>set (map ?f (store st)). id_s r = j \<and> type r = ty \<and> (b \<longrightarrow> enabled r)"
    then obtain r where r: "r \<in> set (store st)" "id_s (?f r) = j" "type (?f r) = ty"
      "b \<longrightarrow> enabled (?f r)" by auto
    have "id_s r \<noteq> i" using r(2) assms by (cases "id_s r = i") auto
    with r show "\<exists>r\<in>set (store st). id_s r = j \<and> type r = ty \<and> (b \<longrightarrow> enabled r)" by auto
  next
    assume "\<exists>r\<in>set (store st). id_s r = j \<and> type r = ty \<and> (b \<longrightarrow> enabled r)"
    then obtain r where r: "r \<in> set (store st)" "id_s r = j" "type r = ty" "b \<longrightarrow> enabled r"
      by auto
    have e: "?f r = r" using r(2) assms(2) by simp
    from r(1) have "?f r \<in> ?f ` set (store st)" by (rule imageI)
    then have "r \<in> set (map ?f (store st))" unfolding e by (simp only: set_map)
    with r(2,3,4)
    show "\<exists>r\<in>set (map ?f (store st)). id_s r = j \<and> type r = ty \<and> (b \<longrightarrow> enabled r)"
      by blast
  qed
  then show ?thesis by (simp only: rowOk_def storage_update_fields)
qed

lemma rowOk_update_same:
  assumes "r \<in> set (store st)" "id_s r = i" "id_s (p r) = i" "type (p r) = ty"
    "b \<longrightarrow> enabled (p r)"
  shows "rowOk b ty (snd (storage_update i p st)) i"
proof -
  let ?f = "\<lambda>r. if id_s r = i then p r else r"
  have "?f r \<in> set (map ?f (store st))" using assms(1) by simp
  moreover have "?f r = p r" using assms(2) by simp
  ultimately have "p r \<in> set (store (snd (storage_update i p st)))" by simp
  with assms(3,4,5) show ?thesis unfolding rowOk_def by blast
qed

lemma rowOk_update_loose:
  assumes "\<And>r. id_s (p r) = id_s r \<and> type (p r) = type r" "rowOk False ty st j"
  shows "rowOk False ty (snd (storage_update i p st)) j"
proof -
  from assms(2) obtain r where r: "r \<in> set (store st)" "id_s r = j" "type r = ty"
    unfolding rowOk_def by blast
  let ?f = "\<lambda>r. if id_s r = i then p r else r"
  have "?f r \<in> set (store (snd (storage_update i p st)))" using r(1) by simp
  moreover have "id_s (?f r) = j" "type (?f r) = ty" using r assms(1) by auto
  ultimately show ?thesis unfolding rowOk_def by blast
qed

lemma distinct_update:
  assumes "\<And>r. id_s (p r) = id_s r" "distinct (map id_s (store st))"
  shows "distinct (map id_s (store (snd (storage_update i p st))))"
proof -
  have "id_s \<circ> (\<lambda>r. if id_s r = i then p r else r) = id_s"
    using assms(1) by (auto simp: fun_eq_iff)
  then show ?thesis using assms(2) by simp
qed

lemma rowOk_delete_other:
  "j \<noteq> i \<Longrightarrow> rowOk b ty st j \<Longrightarrow> rowOk b ty (snd (storage_delete i st)) j"
  unfolding rowOk_def by auto

lemma rowOk_create_mono:
  "rowOk b ty st j \<Longrightarrow> rowOk b ty (snd (storage_create newId now d st)) j"
  unfolding rowOk_def storage_create_def Let_def by auto


lemma inv_stopJob:
  assumes inv: "registryInv b st"
  shows "registryInv b (stopJob i st)"
proof (rule inv_transfer[OF inv])
  show "distinct (map id_s (store (stopJob i st)))"
    using inv by (simp add: registryInv_distinct)
next
  fix j h assume "cronJobs (stopJob i st) j = Some h"
  then have "cronJobs st j = Some h" by (simp split: if_splits)
  then show "(cronJobs st j = Some h \<and> (rowOk b fixed st j \<longrightarrow> rowOk b fixed (stopJob i st) j))
      \<or> (id_s h = j \<and> rowOk b fixed (stopJob i st) j)"
    by (simp add: rowOk_cong[of "stopJob i st" st])
next
  fix j h assume "timers (stopJob i st) j = Some h"
  then have "timers st j = Some h" by (simp split: if_splits)
  then show "(timers st j = Some h \<and> (rowOk b manual st j \<longrightarrow> rowOk b manual (stopJob i st) j))
      \<or> (id_s h = j \<and> rowOk b manual (stopJob i st) j)"
    by (simp add: rowOk_cong[of "stopJob i st" st])
qed


lemma inv_clearAllJobs:
  assumes inv: "registryInv b st"
  shows "registryInv b (clearAllJobs st)"
  by (rule registryInvI) (use inv in \<open>simp_all add: clearAllJobs_def registryInv_distinct\<close>)

lemma inv_sendScheduledMessage:
  "registryInv b (sendScheduledMessage e s st) = registryInv b st"
  by (rule registryInv_cong) (simp_all only: sendScheduledMessage_fields)

lemma inv_startCronJob:
  assumes inv: "registryInv b st" and row: "rowOk b fixed st (id_s s)"
  shows "registryInv b (startCronJob e s st)"
proof (rule inv_transfer[OF inv])
  show "distinct (map id_s (store (startCronJob e s st)))"
    using inv by (simp add: registryInv_distinct)
next
  fix j h assume a: "cronJobs (startCronJob e s st) j = Some h"
  have r: "rowOk b fixed (startCronJob e s st) k = rowOk b fixed st k" for k
    by (rule rowOk_cong) simp
  from a have "cronJobs st j = Some h \<or> (j = id_s s \<and> h = s)"
    by (simp split: if_splits)
  then show "(cronJobs st j = Some h
        \<and> (rowOk b fixed st j \<longrightarrow> rowOk b fixed (startCronJob e s st) j))
      \<or> (id_s h = j \<and> rowOk b fixed (startCronJob e s st) j)"
    using row by (auto simp: r)
next
  fix j h assume a: "timers (startCronJob e s st) j = Some h"
  have r: "rowOk b manual (startCronJob e s st) k = rowOk b manual st k" for k
    by (rule rowOk_cong) simp
  from a show "(timers st j = Some h
        \<and> (rowOk b manual st j \<longrightarrow> rowOk b manual (startCronJob e s st) j))
      \<or> (id_s h = j \<and> rowOk b manual (startCronJob e s st) j)"
    by (simp add: r)
qed

lemma inv_addTimer:
  assumes inv: "registryInv b st" and row: "rowOk b manual st (id_s s)"
  shows "registryInv b (st\<lparr>timers := (timers st)(id_s s \<mapsto> s)\<rparr>)"
proof (rule inv_transfer[OF inv])
  let ?st' = "st\<lparr>timers := (timers st)(id_s s \<mapsto> s)\<rparr>"
  show "distinct (map id_s (store ?st'))"
    using inv by (simp add: registryInv_distinct)
  have r: "rowOk b ty ?st' k = rowOk b ty st k" for k ty
    by (rule rowOk_cong) simp
  show "(cronJobs st j = Some h \<and> (rowOk b fixed st j \<longrightarrow> rowOk b fixed ?st' j))
      \<or> (id_s h = j \<and> rowOk b fixed ?st' j)" if "cronJobs ?st' j = Some h" for j h
    using that by (simp add: r)
  show "(timers st j = Some h \<and> (rowOk b manual st j \<longrightarrow> rowOk b manual ?st' j))
      \<or> (id_s h = j \<and> rowOk b manual ?st' j)" if "timers ?st' j = Some h" for j h
  proof -
    from that have "timers st j = Some h \<or> (j = id_s s \<and> h = s)"
      by (simp split: if_splits)
    then show ?thesis using row by (auto simp: r)
  qed
qed

lemma inv_startTimer:
  assumes "registryInv b st" "rowOk b manual st (id_s s)" "startTimer now s st = Inr st'"
  shows "registryInv b st'"
proof -
  from assms(3) have "st' = st \<or> st' = st\<lparr>timers := (timers st)(id_s s \<mapsto> s)\<rparr>"
    by (auto simp: startTimer_def Let_def split: option.splits if_splits)
  then show ?thesis using assms(1) inv_addTimer[OF assms(1,2)] by auto
qed


lemma inv_storage_update:
  assumes inv: "registryInv b st"
    and p: "\<And>r. id_s (p r) = id_s r \<and> type (p r) = type r"
    and none: "b \<Longrightarrow> cronJobs st i = None \<and> timers st i = None"
  shows "registryInv b (snd (storage_update i p st))"
proof (rule inv_transfer[OF inv])
  let ?st' = "snd (storage_update i p st)"
  show "distinct (map id_s (store ?st'))"
    using inv p by (intro distinct_update) (simp_all add: registryInv_distinct)
  have keep: "rowOk b ty st j \<longrightarrow> rowOk b ty ?st' j" if "b \<Longrightarrow> j \<noteq> i" for ty j
  proof (cases b)
    case True
    then have "j \<noteq> i" using that by simp
    then show ?thesis using p by (simp add: rowOk_update_other)
  next
    case False
    have "rowOk False ty st j \<Longrightarrow> rowOk False ty ?st' j"
      by (rule rowOk_update_loose) (rule p)
    with False show ?thesis by simp
  qed
  show "(cronJobs st j = Some h \<and> (rowOk b fixed st j \<longrightarrow> rowOk b fixed ?st' j))
      \<or> (id_s h = j \<and> rowOk b fixed ?st' j)" if "cronJobs ?st' j = Some h" for j h
  proof -
    from that have c: "cronJobs st j = Some h" by simp
    then have "b \<Longrightarrow> j \<noteq> i" using none by auto
    from keep[OF this] c show ?thesis by blast
  qed
  show "(timers st j = Some h \<and> (rowOk b manual st j \<longrightarrow> rowOk b manual ?st' j))
      \<or> (id_s h = j \<and> rowOk b manual ?st' j)" if "timers ?st' j = Some h" for j h
  proof -
    from that have c: "timers st j = Some h" by simp
    then have "b \<Longrightarrow> j \<noteq> i" using none by auto
    from keep[OF this] c show ?thesis by blast
  qed
qed

lemma inv_storage_delete:
  assumes inv: "registryInv b st" and none: "cronJobs st i = None" "timers st i = None"
  shows "registryInv b (snd (storage_delete i st))"
proof (rule inv_transfer[OF inv])
  let ?st' = "snd (storage_delete i st)"
  show "distinct (map id_s (store ?st'))"
    using inv by (simp add: registryInv_distinct distinct_map_filter)
  show "(cronJobs st j = Some h \<and> (rowOk b fixed st j \<longrightarrow> rowOk b fixed ?st' j))
      \<or> (id_s h = j \<and> rowOk b fixed ?st' j)" if "cronJobs ?st' j = Some h" for j h
  proof -
    from that have c: "cronJobs st j = Some h" by simp
    then have "j \<noteq> i" using none by auto
    then show ?thesis using c rowOk_delete_other by blast
  qed
  show "(timers st j = Some h \<and> (rowOk b manual st j \<longrightarrow> rowOk b manual ?st' j))
      \<or> (id_s h = j \<and> rowOk b manual ?st' j)" if "timers ?st' j = Some h" for j h
  proof -
    from that have c: "timers st j = Some h" by simp
    then have "j \<noteq> i" using none by auto
    then show ?thesis using c rowOk_delete_other by blast
  qed
qed

lemma storage_create_fields [simp]:
  "store (snd (storage_create newId now d st)) = store st @ [d\<lparr>id_s := newId, createdAt := now\<rparr>]"
  "cronJobs (snd (storage_create newId now d st)) = cronJobs st"
  "timers (snd (storage_create newId now d st)) = timers st"
  "outbox (snd (storage_create newId now d st)) = outbox st"
  "fst (storage_create newId now d st) = d\<lparr>id_s := newId, createdAt := now\<rparr>"
  by (simp_all add: storage_create_def Let_def)

lemma inv_storage_create:
  assumes inv: "registryInv b st" and fresh: "newId \<notin> set (map id_s (store st))"
  shows "registryInv b (snd (storage_create newId now d st))"
proof (rule inv_transfer[OF inv])
  let ?st' = "snd (storage_create newId now d st)"
  show "distinct (map id_s (store ?st'))"
    using inv fresh by (simp add: registryInv_distinct)
  show "(cronJobs st j = Some h \<and> (rowOk b fixed st j \<longrightarrow> rowOk b fixed ?st' j))
      \<or> (id_s h = j \<and> rowOk b fixed ?st' j)" if "cronJobs ?st' j = Some h" for j h
    using that rowOk_create_mono by simp
  show "(timers st j = Some h \<and> (rowOk b manual st j \<longrightarrow> rowOk b manual ?st' j))
      \<or> (id_s h = j \<and> rowOk b manual ?st' j)" if "timers ?st' j = Some h" for j h
    using that rowOk_create_mono by simp
qed

lemma storage_findById_Some:
  "storage_findById i st = Some r \<Longrightarrow> r \<in> set (store st) \<and> id_s r = i"
  by (auto simp: storage_findById_def find_Some_iff)

lemma findById_Inr: "findById i st = Inr r \<Longrightarrow> r \<in> set (store st) \<and> id_s r = i"
  by (auto simp: findById_def storage_findById_Some split: option.splits)

lemma fst_storage_update:
  assumes "fst (storage_update i p st) = Some u"
  shows "u \<in> set (store (snd (storage_update i p st))) \<and> id_s u = i"
proof -
  have "storage_findById i (snd (storage_update i p st)) = Some u"
    using assms by (simp add: storage_update_def Let_def)
  then show ?thesis by (rule storage_findById_Some)
qed

text \<open>Two entries under one id would need a Fixed row and a Manual row with that id.\<close>

lemma rowOk_type_unique:
  assumes "distinct (map id_s (store st))" "rowOk b ty st i" "rowOk b' ty' st i"
  shows "ty = ty'"
proof -
  from assms(2,3) obtain r r' where
    "r \<in> set (store st)" "id_s r = i" "type r = ty"
    "r' \<in> set (store st)" "id_s r' = i" "type r' = ty'"
    unfolding rowOk_def by blast
  moreover from this assms(1) have "r = r'" by (metis distinct_map inj_onD)
  ultimately show ?thesis by simp
qed


subsection \<open>Every operation keeps the invariant\<close>

lemma inv_timerCallback:
  assumes inv: "registryInv b st" and t: "timers st i = Some s"
  shows "registryInv b (timerCallback e s st)"
proof -
  from registryInv_timer[OF inv t] have id: "id_s s = i" and row: "rowOk b manual st i" by auto
  let ?stA = "(sendScheduledMessage e s st)\<lparr>timers := (timers st)(i := None)\<rparr>"
  have rA: "rowOk b ty ?stA k = rowOk b ty st k" for ty k by (rule rowOk_cong) simp
  have invA: "registryInv b ?stA"
  proof (rule inv_transfer[OF inv])
    show "distinct (map id_s (store ?stA))" using inv by (simp add: registryInv_distinct)
    show "(cronJobs st j = Some h \<and> (rowOk b fixed st j \<longrightarrow> rowOk b fixed ?stA j))
        \<or> (id_s h = j \<and> rowOk b fixed ?stA j)" if "cronJobs ?stA j = Some h" for j h
      using that by (simp add: rA)
    show "(timers st j = Some h \<and> (rowOk b manual st j \<longrightarrow> rowOk b manual ?stA j))
        \<or> (id_s h = j \<and> rowOk b manual ?stA j)" if "timers ?stA j = Some h" for j h
      using that by (simp add: rA split: if_splits)
  qed
  have c: "cronJobs ?stA i = None"
  proof (rule ccontr)
    assume "cronJobs ?stA i \<noteq> None"
    then obtain h where "cronJobs st i = Some h" by auto
    from registryInv_cron[OF inv this] row
      rowOk_type_unique[OF registryInv_distinct[OF inv], of b fixed i b manual]
    show False by simp
  qed
  have "registryInv b (snd (storage_update i (\<lambda>r. r\<lparr>enabled := False\<rparr>) ?stA))"
    by (rule inv_storage_update[OF invA]) (use c in simp_all)
  moreover have "registryInv b (timerCallback e s st)
      = registryInv b (snd (storage_update i (\<lambda>r. r\<lparr>enabled := False\<rparr>) ?stA))"
    by (rule registryInv_cong) (simp_all add: id)
  ultimately show ?thesis by simp
qed

lemma inv_timerFire:
  assumes "registryInv b st"
  shows "registryInv b (timerFire e i st)"
  using assms inv_timerCallback[OF assms]
  by (cases "timers st i") (simp_all add: timerFire_def)

lemma inv_cronTick:
  assumes "registryInv b st"
  shows "registryInv b (cronTick e i st)"
  using assms
  by (cases "cronJobs st i") (simp_all add: cronTick_def cronCallback_def inv_sendScheduledMessage)

lemma summaryLoop_fields [simp]:
  "store (summaryLoop e k groups st) = store st"
  "cronJobs (summaryLoop e k groups st) = cronJobs st"
  "timers (summaryLoop e k groups st) = timers st"
  by (induction e k groups st rule: summaryLoop.induct; simp add: Let_def split: prod.splits)+

lemma inv_sendDailySummary:
  "registryInv b (sendDailySummary e now st) = registryInv b st"
  by (rule registryInv_cong) (simp_all add: sendDailySummary_def Let_def)

lemma inv_delete:
  assumes inv: "registryInv b st"
  shows "registryInv b (snd (delete i st))"
proof (cases "findById i st")
  case (Inl err)
  then show ?thesis using inv by (simp add: delete_def)
next
  case (Inr schedule)
  have "registryInv b (snd (storage_delete i (stopJob i st)))"
    by (rule inv_storage_delete[OF inv_stopJob[OF inv]]) simp_all
  with Inr show ?thesis by (simp add: delete_def)
qed

lemma inv_create:
  assumes inv: "registryInv b st" and fresh: "newId \<notin> set (map id_s (store st))"
  shows "registryInv b (snd (create e now newId dto st))"
proof (cases "dto_type dto = manual \<and> (case dto_scheduledAt dto of Some t \<Rightarrow> t \<le> now | None \<Rightarrow> False)")
  case True
  then show ?thesis using inv by (simp add: create_def)
next
  case False
  define d where "d = \<lparr>id_s = [], type = dto_type dto, name = dto_name dto,
      message = dto_message dto,
      chatId = (if truthy (dto_chatId dto) then the (dto_chatId dto) else defaultChatId e),
      enabled = True, createdAt = 0, cron = dto_cron dto, scheduledAt = dto_scheduledAt dto,
      eventTime = dto_eventTime dto, description = dto_description dto\<rparr>"
  define schedule where "schedule = d\<lparr>id_s := newId, createdAt := now\<rparr>"
  define st1 where "st1 = snd (storage_create newId now d st)"
  have sc: "storage_create newId now d st = (schedule, st1)"
    by (simp add: schedule_def st1_def storage_create_def Let_def)
  have i1: "registryInv b st1" unfolding st1_def by (rule inv_storage_create[OF inv fresh])
  have "schedule \<in> set (store st1)" by (simp add: st1_def schedule_def)
  moreover have "id_s schedule = newId" "enabled schedule" "type schedule = dto_type dto"
    by (simp_all add: schedule_def d_def)
  ultimately have row: "rowOk b (dto_type dto) st1 (id_s schedule)"
    unfolding rowOk_def by blast
  have ty: "type schedule = dto_type dto" by (simp add: schedule_def d_def)
  have res: "snd (create e now newId dto st)
      = (if dto_type dto = fixed then startCronJob e schedule st1
         else if dto_type dto = manual then
           (case startTimer now schedule st1 of Inl err \<Rightarrow> st1 | Inr st2 \<Rightarrow> st2)
         else st1)"
    using False sc ty unfolding create_def d_def[symmetric]
    by (simp split: sum.splits)
  show ?thesis
  proof (cases "dto_type dto")
    case fixed
    with res row i1 show ?thesis by (simp add: inv_startCronJob)
  next
    case manual
    show ?thesis
    proof (cases "startTimer now schedule st1")
      case (Inl err)
      with res manual i1 show ?thesis by simp
    next
      case (Inr st2)
      from inv_startTimer[OF i1 _ Inr] row manual have "registryInv b st2" by simp
      with res manual Inr show ?thesis by simp
    qed
  next
    case event
    with res i1 show ?thesis by simp
  qed
qed


lemma updateData_keeps: "id_s (updateData dto r) = id_s r \<and> type (updateData dto r) = type r"
  by (simp add: updateData_def)

lemma inv_update:
  assumes inv: "registryInv b st"
  shows "registryInv b (snd (update e now i dto st))"
proof (cases "findById i st")
  case (Inl err)
  then show ?thesis using inv by (simp add: update_def)
next
  case (Inr existing)
  show ?thesis
  proof (cases "(case upd_scheduledAt dto of Some t \<Rightarrow> t \<le> now | None \<Rightarrow> False)
                 \<and> type existing = manual")
    case True
    then show ?thesis using Inr inv by (simp add: update_def)
  next
    case False
    have upd: "update e now i dto st =
        (let st1 = stopJob i st;
             (updatedOpt, st2) = storage_update i (updateData dto) st1
         in (case updatedOpt of
               None \<Rightarrow> (Inl NotFoundException, st2)
             | Some updated \<Rightarrow>
                 if enabled updated then
                   (if type updated = fixed then (Inr updated, startCronJob e updated st2)
                    else if type updated = manual then
                      (if (case scheduledAt updated of Some t \<Rightarrow> t > now | None \<Rightarrow> False) then
                         (case startTimer now updated st2 of
                            Inl err \<Rightarrow> (Inl err, st2)
                          | Inr st3 \<Rightarrow> (Inr updated, st3))
                       else (Inr updated,
                             snd (storage_update i (\<lambda>r. r\<lparr>enabled := False\<rparr>) st2)))
                    else (Inr updated, st2))
                 else (Inr updated, st2)))"
      unfolding update_def by (simp only: Inr sum.case False if_False)
    define st1 where "st1 = stopJob i st"
    define st2 where "st2 = snd (storage_update i (updateData dto) st1)"
    define updatedOpt where "updatedOpt = fst (storage_update i (updateData dto) st1)"
    have su: "storage_update i (updateData dto) st1 = (updatedOpt, st2)"
      by (simp add: st2_def updatedOpt_def)
    have i1: "registryInv b st1" unfolding st1_def by (rule inv_stopJob[OF inv])
    have i2: "registryInv b st2" unfolding st2_def
      by (rule inv_storage_update[OF i1]) (simp_all add: updateData_keeps st1_def)
    have none2: "cronJobs st2 i = None" "timers st2 i = None"
      by (simp_all add: st2_def st1_def)
    have i3: "registryInv b (snd (storage_update i (\<lambda>r. r\<lparr>enabled := False\<rparr>) st2))"
      by (rule inv_storage_update[OF i2]) (simp_all add: none2)
    show ?thesis
    proof (cases updatedOpt)
      case None
      with su i2 show ?thesis
        unfolding upd st1_def[symmetric] by (simp add: Let_def)
    next
      case (Some updated)
      have "fst (storage_update i (updateData dto) st1) = Some updated"
        using Some by (simp only: updatedOpt_def)
      from fst_storage_update[OF this]
      have u: "updated \<in> set (store st2)" "id_s updated = i"
        unfolding st2_def by blast+
      have row: "enabled updated \<Longrightarrow> rowOk b (type updated) st2 (id_s updated)"
        unfolding rowOk_def using u by blast
      have res: "snd (update e now i dto st)
          = (if enabled updated then
               (if type updated = fixed then startCronJob e updated st2
                else if type updated = manual then
                  (if (case scheduledAt updated of Some t \<Rightarrow> t > now | None \<Rightarrow> False) then
                     (case startTimer now updated st2 of Inl err \<Rightarrow> st2 | Inr st3 \<Rightarrow> st3)
                   else snd (storage_update i (\<lambda>r. r\<lparr>enabled := False\<rparr>) st2))
                else st2)
             else st2)"
        using su Some unfolding upd st1_def[symmetric]
        by (simp add: Let_def split: sum.splits)
      show ?thesis
      proof (cases "enabled updated")
        case False
        with res i2 show ?thesis by simp
      next
        case True
        note en = this
        show ?thesis
        proof (cases "type updated")
          case fixed
          with res en row i2 show ?thesis by (simp add: inv_startCronJob)
        next
          case event
          with res en i2 show ?thesis by simp
        next
          case manual
          show ?thesis
          proof (cases "case scheduledAt updated of Some t \<Rightarrow> t > now | None \<Rightarrow> False")
            case False
            with res en manual i3 show ?thesis by simp
          next
            case True
            show ?thesis
            proof (cases "startTimer now updated st2")
              case (Inl err)
              with res en manual True i2 show ?thesis by simp
            next
              case (Inr st3)
              from inv_startTimer[OF i2 _ Inr] row en manual have "registryInv b st3" by simp
              with res en manual True Inr show ?thesis by simp
            qed
          qed
        qed
      qed
    qed
  qed
qed


lemma inv_toggleEnabled:
  assumes inv: "registryInv b st"
  shows "registryInv b (snd (toggleEnabled e now i st))"
proof (cases "findById i st")
  case (Inl err)
  then show ?thesis using inv by (simp add: toggleEnabled_def)
next
  case (Inr schedule)
  from findById_Inr[OF Inr] have mem: "schedule \<in> set (store st)" and id: "id_s schedule = i"
    by auto
  define st1 where "st1 = stopJob i st"
  define en where "en = (\<lambda>r::ScheduledNotificationEntity. r\<lparr>enabled := \<not> enabled schedule\<rparr>)"
  have i1: "registryInv b st1" unfolding st1_def by (rule inv_stopJob[OF inv])
  have none1: "cronJobs st1 i = None" "timers st1 i = None" by (simp_all add: st1_def)
  have iu: "registryInv b (snd (storage_update i en st1))"
    by (rule inv_storage_update[OF i1]) (simp_all add: en_def none1)
  have mem1: "schedule \<in> set (store st1)" using mem by (simp add: st1_def)
  have row: "\<not> enabled schedule \<Longrightarrow> rowOk b (type schedule) (snd (storage_update i en st1)) i"
    by (rule rowOk_update_same[OF mem1 id]) (simp_all add: en_def id)
  have tog: "toggleEnabled e now i st =
      (let started =
             (if \<not> enabled schedule then
                (if type schedule = fixed then Inr (startCronJob e schedule st1)
                 else if type schedule = manual then
                   (if scheduledAt schedule = None \<or> the (scheduledAt schedule) \<le> now
                    then Inl BadRequestException
                    else startTimer now schedule st1)
                 else Inr st1)
              else Inr st1)
       in (case started of
             Inl err \<Rightarrow> (Inl err, st1)
           | Inr st2 \<Rightarrow>
               (let (result, st3) = storage_update i en st2 in (Inr result, st3))))"
    unfolding toggleEnabled_def st1_def en_def by (simp only: Inr sum.case Let_def)
  show ?thesis
  proof (cases "enabled schedule")
    case True
    then show ?thesis using iu unfolding tog by (simp add: Let_def split_beta)
  next
    case False
    note dis = this
    show ?thesis
    proof (cases "type schedule")
      case event
      with dis iu show ?thesis unfolding tog by (simp add: Let_def split_beta)
    next
      case fixed
      have "registryInv b (startCronJob e schedule (snd (storage_update i en st1)))"
        by (rule inv_startCronJob[OF iu]) (use row dis fixed id in simp)
      moreover have "registryInv b (snd (storage_update i en (startCronJob e schedule st1)))
          = registryInv b (startCronJob e schedule (snd (storage_update i en st1)))"
        by (rule registryInv_cong) simp_all
      ultimately show ?thesis using dis fixed unfolding tog by (simp add: Let_def split_beta)
    next
      case manual
      show ?thesis
      proof (cases "scheduledAt schedule = None \<or> the (scheduledAt schedule) \<le> now")
        case True
        with dis manual i1 show ?thesis unfolding tog by (simp add: Let_def)
      next
        case False
        then obtain t where t: "scheduledAt schedule = Some t" "now < t" by auto
        let ?st2 = "st1\<lparr>timers := (timers st1)(id_s schedule \<mapsto> schedule)\<rparr>"
        have stt: "startTimer now schedule st1 = Inr ?st2"
          using t by (rule startTimer_future)
        have "registryInv b ((snd (storage_update i en st1))
                \<lparr>timers := (timers (snd (storage_update i en st1)))(id_s schedule \<mapsto> schedule)\<rparr>)"
          by (rule inv_addTimer[OF iu]) (use row dis manual id in simp)
        moreover have "registryInv b (snd (storage_update i en ?st2))
            = registryInv b ((snd (storage_update i en st1))
                \<lparr>timers := (timers (snd (storage_update i en st1)))(id_s schedule \<mapsto> schedule)\<rparr>)"
          by (rule registryInv_cong) simp_all
        ultimately show ?thesis
          using dis manual t stt unfolding tog by (simp add: Let_def split_beta)
      qed
    qed
  qed
qed

lemma inv_step:
  assumes "step e st st'" "registryInv b st"
  shows "registryInv b st'"
  using assms
proof (induction rule: step.induct)
  case (step_create newId st now dto)
  then show ?case by (simp add: inv_create)
next
  case (step_update st now i udto)
  then show ?case by (simp add: inv_update)
next
  case (step_delete i st)
  then show ?case by (simp add: inv_delete)
next
  case (step_toggle st now i)
  then show ?case by (simp add: inv_toggleEnabled)
next
  case (step_cronTick st i)
  then show ?case by (simp add: inv_cronTick)
next
  case (step_timerFire st i)
  then show ?case by (simp add: inv_timerFire)
next
  case (step_summary st now)
  then show ?case by (simp add: inv_sendDailySummary)
next
  case (step_shutdown st)
  then show ?case by (simp add: inv_clearAllJobs)
qed

subsection \<open>Restart recovery keeps the invariant\<close>

lemma mem_after_update_other:
  assumes "r \<in> set (store st)" "id_s r \<noteq> i"
  shows "r \<in> set (store (snd (storage_update i p st)))"
proof -
  let ?f = "\<lambda>r. if id_s r = i then p r else r"
  from assms(1) have "?f r \<in> ?f ` set (store st)" by (rule imageI)
  moreover have "?f r = r" using assms(2) by simp
  ultimately show ?thesis by simp
qed

lemma inv_restoreLoop:
  assumes "registryInv b st" "set ss \<subseteq> set (store st)" "distinct (map id_s ss)"
    and "b \<Longrightarrow> \<forall>s\<in>set ss. cronJobs st (id_s s) = None \<and> timers st (id_s s) = None"
  shows "registryInv b (snd (restoreLoop e now ss st))"
  using assms
proof (induction ss arbitrary: st)
  case Nil
  then show ?case by simp
next
  case (Cons s rest)
  have mem: "s \<in> set (store st)" and sub: "set rest \<subseteq> set (store st)"
    and dist: "distinct (map id_s rest)" and other: "\<forall>r\<in>set rest. id_s r \<noteq> id_s s"
    using Cons.prems(2,3) by (auto simp: image_iff)
  have none_s: "b \<Longrightarrow> cronJobs st (id_s s) = None \<and> timers st (id_s s) = None"
    using Cons.prems(4) by simp
  have none_rest: "b \<Longrightarrow> \<forall>r\<in>set rest. cronJobs st (id_s r) = None \<and> timers st (id_s r) = None"
    using Cons.prems(4) by simp
  have row: "enabled s \<Longrightarrow> rowOk b (type s) st (id_s s)"
    unfolding rowOk_def using mem by blast
  have keep: "registryInv b (snd (restoreLoop e now rest st))"
    by (rule Cons.IH[OF Cons.prems(1) sub dist none_rest])
  show ?case
  proof (cases "enabled s")
    case False
    with keep show ?thesis by simp
  next
    case True
    note en = this
    show ?thesis
    proof (cases "type s")
      case event
      with en keep show ?thesis by simp
    next
      case fixed
      have "registryInv b (snd (restoreLoop e now rest (startCronJob e s st)))"
      proof (rule Cons.IH)
        show "registryInv b (startCronJob e s st)"
          by (rule inv_startCronJob[OF Cons.prems(1)]) (use row en fixed in simp)
        show "set rest \<subseteq> set (store (startCronJob e s st))" using sub by simp
        show "distinct (map id_s rest)" by (rule dist)
        show "\<forall>r\<in>set rest. cronJobs (startCronJob e s st) (id_s r) = None
                \<and> timers (startCronJob e s st) (id_s r) = None" if b
          using none_rest[OF that] other by simp
      qed
      with en fixed show ?thesis by simp
    next
      case manual
      show ?thesis
      proof (cases "scheduledAt s")
        case None
        with en manual Cons.prems(1) show ?thesis by simp
      next
        case (Some t)
        show ?thesis
        proof (cases "t > now")
          case True
          let ?st' = "st\<lparr>timers := (timers st)(id_s s \<mapsto> s)\<rparr>"
          have stt: "startTimer now s st = Inr ?st'" using Some True by (rule startTimer_future)
          have "registryInv b (snd (restoreLoop e now rest ?st'))"
          proof (rule Cons.IH)
            show "registryInv b ?st'"
              by (rule inv_addTimer[OF Cons.prems(1)]) (use row en manual in simp)
            show "set rest \<subseteq> set (store ?st')" using sub by simp
            show "distinct (map id_s rest)" by (rule dist)
            show "\<forall>r\<in>set rest. cronJobs ?st' (id_s r) = None \<and> timers ?st' (id_s r) = None" if b
              using none_rest[OF that] other by simp
          qed
          with en manual Some True stt show ?thesis by simp
        next
          case False
          let ?st' = "snd (storage_update (id_s s) (\<lambda>r. r\<lparr>enabled := False\<rparr>) st)"
          have "registryInv b (snd (restoreLoop e now rest ?st'))"
          proof (rule Cons.IH)
            show "registryInv b ?st'"
              by (rule inv_storage_update[OF Cons.prems(1)]) (use none_s in simp_all)
            show "set rest \<subseteq> set (store ?st')"
            proof
              fix r assume "r \<in> set rest"
              then have "r \<in> set (store st)" "id_s r \<noteq> id_s s" using sub other by auto
              then show "r \<in> set (store ?st')" by (rule mem_after_update_other)
            qed
            show "distinct (map id_s rest)" by (rule dist)
            show "\<forall>r\<in>set rest. cronJobs ?st' (id_s r) = None \<and> timers ?st' (id_s r) = None" if b
              using none_rest[OF that] by simp
          qed
          with en manual Some False show ?thesis by simp
        qed
      qed
    qed
  qed
qed

lemma distinct_ids_sorted:
  "distinct (map id_s rows) \<Longrightarrow> distinct (map id_s (sort_key createdAt rows))"
  by (simp add: distinct_map)


lemma inv_onModuleInit:
  assumes "distinct (map id_s rows)"
  shows "registryInv b (snd (restoreSchedules e now (freshProcess rows)))"
  unfolding restoreSchedules_def storage_findAll_def
  by (rule inv_restoreLoop[OF inv_freshProcess[OF assms]])
     (use assms in \<open>simp_all add: distinct_ids_sorted freshProcess_def\<close>)

lemma running_inv: "running e st \<Longrightarrow> registryInv True st"
proof (induction rule: running.induct)
  case (running_init rows now)
  then show ?case by (rule inv_onModuleInit)
next
  case (running_step st st')
  then show ?case using inv_step by blast
qed



lemma running_reachable: "running e st \<Longrightarrow> reachable e st"
proof (induction rule: running.induct)
  case (running_init rows now)
  then show ?case by (intro reachable_restore reachable_start)
next
  case (running_step st st')
  then show ?case using reachable_step by blast
qed


lemmas run_eval =
  create_def storage_create_def startCronJob_def startTimer_def stopJob_def toggleEnabled_def
  findById_def storage_findById_def storage_update_def restoreSchedules_def storage_findAll_def
  freshProcess_def demoEnv_def demoFixedDto_def demoManualDto_def truthy_def Let_def
  timerFire_def timerCallback_def sendScheduledMessage_def orDefault_def update_def
  updateData_def


lemma demoFired_state:
  "store demoFired = [\<lparr>id_s = ''m1'', type = manual, name = ''once'', message = ''hello'',
        chatId = ''D'', enabled = False, createdAt = 50, cron = None,
        scheduledAt = Some 100, eventTime = None, description = None\<rparr>]"
  "cronJobs demoFired = Map.empty" "timers demoFired = Map.empty"
  "outbox demoFired = [(''D'', Text ''hello'', False)]"
  by (simp_all add: demoFired_def run_eval)



lemma disabled_no_entry:
  assumes inv: "registryInv True st" and r: "r \<in> set (store st)" "\<not> enabled r"
  shows "cronJobs st (id_s r) = None \<and> timers st (id_s r) = None"
proof -
  have no: "\<not> rowOk True ty st (id_s r)" for ty
  proof
    assume "rowOk True ty st (id_s r)"
    then obtain r' where r': "r' \<in> set (store st)" "id_s r' = id_s r" "enabled r'"
      unfolding rowOk_def by blast
    with r(1) registryInv_distinct[OF inv] have "r' = r" by (metis distinct_map inj_onD)
    with r' r(2) show False by simp
  qed
  have "cronJobs st (id_s r) = None"
    using registryInv_cron[OF inv, of "id_s r"] no by (cases "cronJobs st (id_s r)") auto
  moreover have "timers st (id_s r) = None"
    using registryInv_timer[OF inv, of "id_s r"] no by (cases "timers st (id_s r)") auto
  ultimately show ?thesis by simp
qed

lemma stopJob_idle: "cronJobs st i = None \<Longrightarrow> timers st i = None \<Longrightarrow> stopJob i st = st"
  by (simp add: stopJob_def fun_upd_idem)

text \<open>
  Claim C3. A Manual schedule whose \<open>scheduledAt\<close> is not after \<open>now\<close> is rejected with the
  bad-request error by create, by update (when the body sets such a \<open>scheduledAt\<close>) and by
  toggleEnabled (when it would re-enable the row), and the state after the failed call is the
  state before it. In \<open>toggleEnabled\<close> the live entry is cancelled before the check, so there
  the state is unchanged because a disabled row of a running service has no live entry.
\<close>

theorem past_manual_rejected_unchanged:
  "(dto_type dto = manual \<and> dto_scheduledAt dto = Some t \<and> t \<le> now
      \<longrightarrow> create e now newId dto st = (Inl BadRequestException, st))
   \<and> (findById i st = Inr r \<and> type r = manual \<and> upd_scheduledAt udto = Some t \<and> t \<le> now
      \<longrightarrow> update e now i udto st = (Inl BadRequestException, st))
   \<and> (running e st \<and> findById i st = Inr r \<and> type r = manual \<and> \<not> enabled r
        \<and> scheduledAt r = Some t \<and> t \<le> now
      \<longrightarrow> toggleEnabled e now i st = (Inl BadRequestException, st))"
proof (intro conjI impI)
  assume "dto_type dto = manual \<and> dto_scheduledAt dto = Some t \<and> t \<le> now"
  then show "create e now newId dto st = (Inl BadRequestException, st)"
    by (simp add: create_def)
next
  assume "findById i st = Inr r \<and> type r = manual \<and> upd_scheduledAt udto = Some t \<and> t \<le> now"
  then show "update e now i udto st = (Inl BadRequestException, st)"
    by (simp add: update_def)
next
  assume a: "running e st \<and> findById i st = Inr r \<and> type r = manual \<and> \<not> enabled r
        \<and> scheduledAt r = Some t \<and> t \<le> now"
  then have f: "findById i st = Inr r" by simp
  from findById_Inr[OF f] have mem: "r \<in> set (store st)" and id: "id_s r = i" by auto
  from a have "running e st" by simp
  then have inv: "registryInv True st" by (rule running_inv)
  from disabled_no_entry[OF inv mem] a id
  have "cronJobs st i = None" "timers st i = None" by auto
  then have "stopJob i st = st" by (rule stopJob_idle)
  with a show "toggleEnabled e now i st = (Inl BadRequestException, st)"
    by (simp add: toggleEnabled_def Let_def)
qed


lemma demoFired_running: "running demoEnv demoFired"
proof -
  have "running demoEnv (snd (restoreSchedules demoEnv 0 (freshProcess [])))"
    by (rule running_init) simp
  moreover have "''m1'' \<notin> set (map id_s (store (snd (restoreSchedules demoEnv 0 (freshProcess [])))))"
    by (simp add: run_eval)
  ultimately have "running demoEnv (snd (create demoEnv 50 ''m1'' demoManualDto
      (snd (restoreSchedules demoEnv 0 (freshProcess [])))))"
    using running_step step_create by blast
  then show ?thesis unfolding demoFired_def using running_step step_timerFire by blast
qed

theorem past_manual_rejected_unchanged_witness:
  "create demoEnv 150 ''m1'' demoManualDto (freshProcess [])
     = (Inl BadRequestException, freshProcess [])
   \<and> update demoEnv 200 ''m1'' demoReschedule demoFired = (Inl BadRequestException, demoFired)
   \<and> running demoEnv demoFired
   \<and> toggleEnabled demoEnv 200 ''m1'' demoFired = (Inl BadRequestException, demoFired)"
proof -
  let ?r = "\<lparr>id_s = ''m1'', type = manual, name = ''once'', message = ''hello'',
        chatId = ''D'', enabled = False, createdAt = 50, cron = None,
        scheduledAt = Some 100, eventTime = None, description = None\<rparr>"
  have f: "findById ''m1'' demoFired = Inr ?r"
    by (simp add: findById_def storage_findById_def demoFired_state(1))
  have c: "dto_type demoManualDto = manual \<and> dto_scheduledAt demoManualDto = Some 100
      \<and> (100::int) \<le> 150"
    by (simp add: demoManualDto_def)
  have u: "findById ''m1'' demoFired = Inr ?r \<and> type ?r = manual
      \<and> upd_scheduledAt demoReschedule = Some 150 \<and> (150::int) \<le> 200"
    using f by (simp add: demoReschedule_def)
  have t: "running demoEnv demoFired \<and> findById ''m1'' demoFired = Inr ?r \<and> type ?r = manual
      \<and> \<not> enabled ?r \<and> scheduledAt ?r = Some 100 \<and> (100::int) \<le> 200"
    using f demoFired_running by simp
  from past_manual_rejected_unchanged[where dto = demoManualDto and t = 100 and now = 150
      and e = demoEnv and newId = "''m1''" and st = "freshProcess []"] c
  have 1: "create demoEnv 150 ''m1'' demoManualDto (freshProcess [])
     = (Inl BadRequestException, freshProcess [])" by blast
  from past_manual_rejected_unchanged[where t = 150 and now = 200 and e = demoEnv
      and i = "''m1''" and st = demoFired and r = ?r and udto = demoReschedule] u
  have 2: "update demoEnv 200 ''m1'' demoReschedule demoFired = (Inl BadRequestException, demoFired)"
    by blast
  from past_manual_rejected_unchanged[where t = 100 and now = 200 and e = demoEnv
      and i = "''m1''" and st = demoFired and r = ?r] t
  have 3: "toggleEnabled demoEnv 200 ''m1'' demoFired = (Inl BadRequestException, demoFired)"
    by blast
  from 1 2 3 demoFired_running show ?thesis by simp
qed

section \<open>Verification: restart recovery\<close>

subsection \<open>Restart recovery, row by row\<close>

lemma restoreLoop_Cons:
  assumes "enabled s \<and> type s = manual \<longrightarrow> scheduledAt s \<noteq> None"
  shows "restoreLoop e now (s # rest) st = restoreLoop e now rest (restoreStep e now s st)"
proof (cases "enabled s")
  case False
  then show ?thesis by (simp add: restoreStep_def startsJob_def startsTimer_def expired_def)
next
  case True
  note en = this
  show ?thesis
  proof (cases "type s")
    case event
    with en show ?thesis by (simp add: restoreStep_def startsJob_def startsTimer_def expired_def)
  next
    case fixed
    with en show ?thesis
      by (cases st) (simp add: restoreStep_def startsJob_def startsTimer_def expired_def startCronJob_def)
  next
    case manual
    with en assms obtain t where t: "scheduledAt s = Some t" by auto
    show ?thesis
    proof (cases "now < t")
      case True
      with en manual t startTimer_future[OF t True, of st] show ?thesis
        by (simp add: restoreStep_def startsJob_def startsTimer_def)
    next
      case False
      with en manual t show ?thesis
        by (simp add: restoreStep_def startsJob_def startsTimer_def expired_def)
    qed
  qed
qed

lemma restoreLoop_fold:
  "manualHaveTime ss \<Longrightarrow>
     restoreLoop e now ss st = (Inr (), foldl (\<lambda>st s. restoreStep e now s st) st ss)"
proof (induction ss arbitrary: st)
  case Nil
  then show ?case by simp
next
  case (Cons s rest)
  then have "enabled s \<and> type s = manual \<longrightarrow> scheduledAt s \<noteq> None" "manualHaveTime rest"
    by (simp_all add: manualHaveTime_def)
  with Cons.IH[of "restoreStep e now s st"] show ?case
    by (simp only: restoreLoop_Cons foldl_Cons)
qed

lemma restoreStep_fields:
  "cronJobs (restoreStep e now s st)
     = (if startsJob e s then (cronJobs st)(id_s s \<mapsto> s) else cronJobs st)"
  "timers (restoreStep e now s st)
     = (if startsTimer now s then (timers st)(id_s s \<mapsto> s) else timers st)"
  "store (restoreStep e now s st)
     = (if expired now s
        then map (\<lambda>r. if id_s r = id_s s then r\<lparr>enabled := False\<rparr> else r) (store st)
        else store st)"
  by (auto simp: restoreStep_def startsJob_def startsTimer_def expired_def split: option.splits)


lemma find_absent: "i \<notin> set (map id_s ss) \<Longrightarrow> find (\<lambda>s. id_s s = i) ss = None"
  by (induction ss) auto

lemma find_present:
  "distinct (map id_s ss) \<Longrightarrow> r \<in> set ss \<Longrightarrow> find (\<lambda>s. id_s s = id_s r) ss = Some r"
  by (induction ss) (auto simp: image_iff)

lemma fold_cronJobs:
  assumes "distinct (map id_s ss)"
  shows "cronJobs (foldl (\<lambda>st s. restoreStep e now s st) st ss) i
     = (case find (\<lambda>s. id_s s = i) ss of
          Some s \<Rightarrow> if startsJob e s then Some s else cronJobs st i
        | None \<Rightarrow> cronJobs st i)"
  using assms
proof (induction ss arbitrary: st)
  case Nil
  then show ?case by simp
next
  case (Cons s rest)
  then have d: "distinct (map id_s rest)" and n: "id_s s \<notin> set (map id_s rest)" by auto
  show ?case
  proof (cases "id_s s = i")
    case True
    with n have "find (\<lambda>s. id_s s = i) rest = None" by (simp add: find_absent)
    with True Cons.IH[OF d, of "restoreStep e now s st"] show ?thesis
      by (simp add: restoreStep_fields)
  next
    case False
    with Cons.IH[OF d, of "restoreStep e now s st"] show ?thesis
      by (simp add: restoreStep_fields split: option.splits)
  qed
qed

lemma fold_timers:
  assumes "distinct (map id_s ss)"
  shows "timers (foldl (\<lambda>st s. restoreStep e now s st) st ss) i
     = (case find (\<lambda>s. id_s s = i) ss of
          Some s \<Rightarrow> if startsTimer now s then Some s else timers st i
        | None \<Rightarrow> timers st i)"
  using assms
proof (induction ss arbitrary: st)
  case Nil
  then show ?case by simp
next
  case (Cons s rest)
  then have d: "distinct (map id_s rest)" and n: "id_s s \<notin> set (map id_s rest)" by auto
  show ?case
  proof (cases "id_s s = i")
    case True
    with n have "find (\<lambda>s. id_s s = i) rest = None" by (simp add: find_absent)
    with True Cons.IH[OF d, of "restoreStep e now s st"] show ?thesis
      by (simp add: restoreStep_fields)
  next
    case False
    with Cons.IH[OF d, of "restoreStep e now s st"] show ?thesis
      by (simp add: restoreStep_fields split: option.splits)
  qed
qed

lemma fold_store:
  "store (foldl (\<lambda>st s. restoreStep e now s st) st ss)
     = map (\<lambda>r. if \<exists>s\<in>set ss. id_s s = id_s r \<and> expired now s then r\<lparr>enabled := False\<rparr> else r)
         (store st)"
proof (induction ss arbitrary: st)
  case Nil
  then show ?case by simp
next
  case (Cons s rest)
  show ?case
    by (simp only: foldl_Cons Cons.IH restoreStep_fields) (auto simp: o_def)
qed


lemma job_timer_exclusive: "startsJob e r \<Longrightarrow> \<not> startsTimer now r"
  by (simp add: startsJob_def startsTimer_def)

lemma count_restored:
  "length (filter (\<lambda>r. restoredEntry e now r \<noteq> []) rows)
     = length (filter (startsJob e) rows) + length (filter (startsTimer now) rows)"
  by (induction rows) (auto simp: restoredEntry_def dest: job_timer_exclusive)

lemma card_keys:
  assumes "distinct (map id_s rows)"
  shows "card (id_s ` {r \<in> set rows. P r}) = length (filter P rows)"
proof -
  from assms have d: "distinct rows" and inj: "inj_on id_s (set rows)"
    by (simp_all add: distinct_map)
  have eq: "{r \<in> set rows. P r} = set (filter P rows)" by auto
  have "inj_on id_s (set (filter P rows))" by (rule inj_on_subset[OF inj]) auto
  then have "card (id_s ` set (filter P rows)) = card (set (filter P rows))"
    by (rule card_image)
  also have "\<dots> = length (filter P rows)"
    by (rule distinct_card) (simp add: d)
  finally show ?thesis unfolding eq .
qed

lemma restoreSchedules_rows:
  fixes e :: env and now :: int
  assumes d: "distinct (map id_s rows)" and m: "manualHaveTime rows"
  defines "st' \<equiv> snd (restoreSchedules e now (freshProcess rows))"
  shows "fst (restoreSchedules e now (freshProcess rows)) = Inr ()"
    and "store st' = map (restoredRow now) rows"
    and "\<And>i. cronJobs st' i
           = (case find (\<lambda>s. id_s s = i) (sort_key createdAt rows) of
                Some s \<Rightarrow> if startsJob e s then Some s else None | None \<Rightarrow> None)"
    and "\<And>i. timers st' i
           = (case find (\<lambda>s. id_s s = i) (sort_key createdAt rows) of
                Some s \<Rightarrow> if startsTimer now s then Some s else None | None \<Rightarrow> None)"
proof -
  let ?ss = "sort_key createdAt rows"
  let ?F = "\<lambda>st s. restoreStep e now s st"
  have mss: "manualHaveTime ?ss" using m by (simp add: manualHaveTime_def list_all_iff)
  have dss: "distinct (map id_s ?ss)" using d by (simp add: distinct_map)
  have r: "restoreSchedules e now (freshProcess rows) = (Inr (), foldl ?F (freshProcess rows) ?ss)"
    unfolding restoreSchedules_def storage_findAll_def
    using restoreLoop_fold[OF mss, of e now "freshProcess rows"] by (simp add: freshProcess_def)
  then show "fst (restoreSchedules e now (freshProcess rows)) = Inr ()" by simp
  have st': "st' = foldl ?F (freshProcess rows) ?ss" unfolding st'_def r by simp
  show "cronJobs st' i
           = (case find (\<lambda>s. id_s s = i) ?ss of
                Some s \<Rightarrow> if startsJob e s then Some s else None | None \<Rightarrow> None)" for i
    unfolding st' fold_cronJobs[OF dss] by (simp add: freshProcess_def split: option.splits)
  show "timers st' i
           = (case find (\<lambda>s. id_s s = i) ?ss of
                Some s \<Rightarrow> if startsTimer now s then Some s else None | None \<Rightarrow> None)" for i
    unfolding st' fold_timers[OF dss] by (simp add: freshProcess_def split: option.splits)
  have "(\<exists>s\<in>set ?ss. id_s s = id_s r \<and> expired now s) = expired now r" if "r \<in> set rows" for r
  proof
    assume "\<exists>s\<in>set ?ss. id_s s = id_s r \<and> expired now s"
    then obtain s where s: "s \<in> set rows" "id_s s = id_s r" "expired now s" by auto
    with that d have "s = r" by (metis distinct_map inj_onD)
    with s show "expired now r" by simp
  next
    assume "expired now r"
    with that show "\<exists>s\<in>set ?ss. id_s s = id_s r \<and> expired now s" by auto
  qed
  then have "map (\<lambda>r. if \<exists>s\<in>set ?ss. id_s s = id_s r \<and> expired now s
                      then r\<lparr>enabled := False\<rparr> else r) rows
             = map (restoredRow now) rows"
    by (intro map_cong) (simp_all add: restoredRow_def)
  then show "store st' = map (restoredRow now) rows"
    unfolding st' fold_store by (simp add: freshProcess_def)
qed


lemma restored_entries:
  fixes e :: env and now :: int
  assumes d: "distinct (map id_s rows)" and m: "manualHaveTime rows"
  shows "r \<in> set rows \<Longrightarrow>
           liveEntries (snd (restoreSchedules e now (freshProcess rows))) (id_s r)
             = restoredEntry e now r"
    and "i \<notin> set (map id_s rows) \<Longrightarrow>
           liveEntries (snd (restoreSchedules e now (freshProcess rows))) i = []"
    and "dom (cronJobs (snd (restoreSchedules e now (freshProcess rows))))
           = id_s ` {r \<in> set rows. startsJob e r}"
    and "dom (timers (snd (restoreSchedules e now (freshProcess rows))))
           = id_s ` {r \<in> set rows. startsTimer now r}"
proof -
  let ?ss = "sort_key createdAt rows"
  let ?st = "snd (restoreSchedules e now (freshProcess rows))"
  note c = restoreSchedules_rows(3)[OF d m, where e = e and now = now]
  note t = restoreSchedules_rows(4)[OF d m, where e = e and now = now]
  have dss: "distinct (map id_s ?ss)" using d by (simp add: distinct_map)
  have present: "find (\<lambda>s. id_s s = id_s r) ?ss = Some r" if "r \<in> set rows" for r
    by (rule find_present[OF dss]) (use that in simp)
  have absent: "find (\<lambda>s. id_s s = i) ?ss = None" if "i \<notin> set (map id_s rows)" for i
    by (rule find_absent) (use that in simp)
  show "liveEntries ?st (id_s r) = restoredEntry e now r" if "r \<in> set rows"
    using job_timer_exclusive[of e r now]
    by (auto simp: liveEntries_def restoredEntry_def c t present[OF that])
  show "liveEntries ?st i = []" if "i \<notin> set (map id_s rows)"
    by (simp add: liveEntries_def c t absent[OF that])
  show "dom (cronJobs ?st) = id_s ` {r \<in> set rows. startsJob e r}"
  proof (rule set_eqI)
    fix i
    show "i \<in> dom (cronJobs ?st) \<longleftrightarrow> i \<in> id_s ` {r \<in> set rows. startsJob e r}"
    proof (cases "i \<in> set (map id_s rows)")
      case False
      then show ?thesis by (auto simp: dom_def c absent)
    next
      case True
      then obtain r where r: "r \<in> set rows" "i = id_s r" by auto
      have "i \<in> id_s ` {r \<in> set rows. startsJob e r} \<longleftrightarrow> startsJob e r"
      proof
        assume "i \<in> id_s ` {r \<in> set rows. startsJob e r}"
        then obtain r' where r': "r' \<in> set rows" "id_s r' = id_s r" "startsJob e r'"
          using r(2) by auto
        with r(1) d have "r' = r" by (metis distinct_map inj_onD)
        with r' show "startsJob e r" by simp
      next
        assume "startsJob e r"
        with r show "i \<in> id_s ` {r \<in> set rows. startsJob e r}" by auto
      qed
      then show ?thesis by (simp add: dom_def c r(2) present[OF r(1)])
    qed
  qed
  show "dom (timers ?st) = id_s ` {r \<in> set rows. startsTimer now r}"
  proof (rule set_eqI)
    fix i
    show "i \<in> dom (timers ?st) \<longleftrightarrow> i \<in> id_s ` {r \<in> set rows. startsTimer now r}"
    proof (cases "i \<in> set (map id_s rows)")
      case False
      then show ?thesis by (auto simp: dom_def t absent)
    next
      case True
      then obtain r where r: "r \<in> set rows" "i = id_s r" by auto
      have "i \<in> id_s ` {r \<in> set rows. startsTimer now r} \<longleftrightarrow> startsTimer now r"
      proof
        assume "i \<in> id_s ` {r \<in> set rows. startsTimer now r}"
        then obtain r' where r': "r' \<in> set rows" "id_s r' = id_s r" "startsTimer now r'"
          using r(2) by auto
        with r(1) d have "r' = r" by (metis distinct_map inj_onD)
        with r' show "startsTimer now r" by simp
      next
        assume "startsTimer now r"
        with r show "i \<in> id_s ` {r \<in> set rows. startsTimer now r}" by auto
      qed
      then show ?thesis by (simp add: dom_def t r(2) present[OF r(1)])
    qed
  qed
qed

text \<open>
  Claim C4, amended. On a table with unique ids whose enabled Manual rows all carry
  \<open>scheduledAt\<close>, restart recovery returns normally and leaves, for every row: a recurring
  job if the row is enabled and Fixed and its cron string is accepted by the job constructor;
  a one-shot timer if it is enabled and Manual with \<open>scheduledAt\<close> after \<open>now\<close>; no live entry
  otherwise. An enabled Manual row whose \<open>scheduledAt\<close> is not after \<open>now\<close> is stored with
  \<open>enabled = False\<close>, every other row is stored unchanged, and no other id has a live entry.
  The registries then hold as many entries as there are rows with a job or a timer: four for
  three enabled Fixed rows with accepted cron strings, one future and one past Manual row.
\<close>

theorem restoreSchedules_spec:
  fixes e :: env and now :: int
  assumes "distinct (map id_s rows)" and "manualHaveTime rows"
  shows "fst (restoreSchedules e now (freshProcess rows)) = Inr ()
    \<and> store (snd (restoreSchedules e now (freshProcess rows))) = map (restoredRow now) rows
    \<and> (\<forall>r\<in>set rows.
          liveEntries (snd (restoreSchedules e now (freshProcess rows))) (id_s r)
            = restoredEntry e now r)
    \<and> (\<forall>i. i \<notin> set (map id_s rows) \<longrightarrow>
          liveEntries (snd (restoreSchedules e now (freshProcess rows))) i = [])
    \<and> registrySize (snd (restoreSchedules e now (freshProcess rows)))
        = length (filter (\<lambda>r. restoredEntry e now r \<noteq> []) rows)"
proof -
  note rows = restoreSchedules_rows[OF assms, where e = e and now = now]
  note ent = restored_entries[OF assms, where e = e and now = now]
  have "registrySize (snd (restoreSchedules e now (freshProcess rows)))
        = length (filter (\<lambda>r. restoredEntry e now r \<noteq> []) rows)"
    unfolding registrySize_def ent(3,4) card_keys[OF assms(1)] count_restored ..
  with rows(1,2) ent(1,2) show ?thesis by blast
qed


text \<open>
  Claim C4 as stated fails: an enabled Fixed row whose cron string the job constructor
  rejects is restored without a live entry.
\<close>

theorem restoreSchedules_rejected_cron:
  "list_all (\<lambda>r. enabled r \<and> type r = fixed) demoBadTable
   \<and> fst (restoreSchedules demoEnv 1000 (freshProcess demoBadTable)) = Inr ()
   \<and> liveEntries (snd (restoreSchedules demoEnv 1000 (freshProcess demoBadTable))) ''x'' = []
   \<and> registrySize (snd (restoreSchedules demoEnv 1000 (freshProcess demoBadTable))) = 0"
  by (simp add: demoBadTable_def demoRow_def restoreSchedules_def storage_findAll_def
      freshProcess_def startCronJob_def demoEnv_def liveEntries_def registrySize_def)

theorem restoreSchedules_spec_witness:
  "distinct (map id_s demoTable) \<and> manualHaveTime demoTable
   \<and> fst (restoreSchedules demoEnv 1000 (freshProcess demoTable)) = Inr ()
   \<and> registrySize (snd (restoreSchedules demoEnv 1000 (freshProcess demoTable))) = 4
   \<and> store (snd (restoreSchedules demoEnv 1000 (freshProcess demoTable)))
       = [demoRow ''a'' fixed (Some ''0 9 * * *'') None 1,
          demoRow ''b'' fixed (Some ''0 10 * * 1-5'') None 2,
          demoRow ''c'' manual None (Some 2000) 3,
          demoRow ''d'' fixed (Some ''30 18 1 * *'') None 4,
          (demoRow ''e'' manual None (Some 500) 5)\<lparr>enabled := False\<rparr>]
   \<and> liveEntries (snd (restoreSchedules demoEnv 1000 (freshProcess demoTable))) ''c''
       = [TimerHandle (demoRow ''c'' manual None (Some 2000) 3)]
   \<and> liveEntries (snd (restoreSchedules demoEnv 1000 (freshProcess demoTable))) ''e'' = []"
proof -
  have d: "distinct (map id_s demoTable)" by (simp add: demoTable_def demoRow_def)
  have m: "manualHaveTime demoTable" by (simp add: manualHaveTime_def demoTable_def demoRow_def)
  note t = restoreSchedules_spec[OF d m, where e = demoEnv and now = 1000]
  have c: "demoRow ''c'' manual None (Some 2000) 3 \<in> set demoTable"
    and e: "demoRow ''e'' manual None (Some 500) 5 \<in> set demoTable"
    by (simp_all add: demoTable_def)
  have idc: "id_s (demoRow ''c'' manual None (Some 2000) 3) = ''c''"
    and ide: "id_s (demoRow ''e'' manual None (Some 500) 5) = ''e''"
    by (simp_all add: demoRow_def)
  from t c idc have lc: "liveEntries (snd (restoreSchedules demoEnv 1000 (freshProcess demoTable))) ''c''
      = restoredEntry demoEnv 1000 (demoRow ''c'' manual None (Some 2000) 3)"
    by metis
  from t e ide have le: "liveEntries (snd (restoreSchedules demoEnv 1000 (freshProcess demoTable))) ''e''
      = restoredEntry demoEnv 1000 (demoRow ''e'' manual None (Some 500) 5)"
    by metis
  from t have sz: "registrySize (snd (restoreSchedules demoEnv 1000 (freshProcess demoTable)))
      = length (filter (\<lambda>r. restoredEntry demoEnv 1000 r \<noteq> []) demoTable)"
    and st: "store (snd (restoreSchedules demoEnv 1000 (freshProcess demoTable)))
      = map (restoredRow 1000) demoTable"
    and ok: "fst (restoreSchedules demoEnv 1000 (freshProcess demoTable)) = Inr ()"
    by blast+
  show ?thesis
    unfolding lc le sz st
    using d m ok
    by (simp add: demoTable_def demoRow_def restoredEntry_def restoredRow_def startsJob_def
        startsTimer_def expired_def demoEnv_def)
qed

end
